theory Spec2Isabelle
  imports Main
begin

section \<open>Python strings, lists and text files\<close>

text \<open>
  Strings are \<open>char list\<close>; a character stands for one code point below 256. The ledger
  file is its text as Python's text layer hands it over (line ends are \<open>\n\<close>; the
  program itself writes no other line end).
\<close>

definition newline :: char where
  "newline = CHR 0x0A"

text \<open>\<open>str.isspace\<close> on the code points below 256.\<close>

definition is_space :: "char \<Rightarrow> bool" where
  "is_space c = (c \<in> set [CHR 0x09, CHR 0x0A, CHR 0x0B, CHR 0x0C, CHR 0x0D,
                          CHR 0x1C, CHR 0x1D, CHR 0x1E, CHR 0x1F, CHR 0x20,
                          CHR 0x85, CHR 0xA0])"

text \<open>\<open>s.split()\<close>: the maximal runs of characters that are not whitespace.\<close>

fun split_aux :: "string \<Rightarrow> string \<Rightarrow> string list" where
  "split_aux tok [] = (if tok = [] then [] else [tok])"
| "split_aux tok (c # cs) =
     (if is_space c then (if tok = [] then split_aux [] cs else tok # split_aux [] cs)
      else split_aux (tok @ [c]) cs)"

definition split_ws :: "string \<Rightarrow> string list" where
  "split_ws s = split_aux [] s"

text \<open>\<open>s.split(sep)\<close> for a separator of one character: empty pieces are kept.\<close>

fun split_sep_aux :: "char \<Rightarrow> string \<Rightarrow> string \<Rightarrow> string list" where
  "split_sep_aux sep piece [] = [piece]"
| "split_sep_aux sep piece (c # cs) =
     (if c = sep then piece # split_sep_aux sep [] cs else split_sep_aux sep (piece @ [c]) cs)"

definition split_sep :: "char \<Rightarrow> string \<Rightarrow> string list" where
  "split_sep sep s = split_sep_aux sep [] s"

text \<open>\<open>f.readlines()\<close>: every line keeps its \<open>\n\<close>; only the last line may lack one.\<close>

fun readlines :: "string \<Rightarrow> string list" where
  "readlines [] = []"
| "readlines (c # cs) =
     (if c = newline then [c] # readlines cs
      else (case readlines cs of [] \<Rightarrow> [[c]] | l # ls \<Rightarrow> (c # l) # ls))"

text \<open>\<open>f.writelines(ls)\<close> on a fresh file: the strings one after the other.\<close>

definition writelines :: "string list \<Rightarrow> string" where
  "writelines ls = concat ls"

text \<open>The slices \<open>xs[:k]\<close> and \<open>xs[k:]\<close>; a negative \<open>k\<close> counts from the end.\<close>

definition slice_upto :: "'a list \<Rightarrow> int \<Rightarrow> 'a list" where
  "slice_upto xs k =
     (if k < 0 then take (nat (int (length xs) + k)) xs else take (nat k) xs)"

definition slice_from :: "'a list \<Rightarrow> int \<Rightarrow> 'a list" where
  "slice_from xs k =
     (if k < 0 then drop (nat (int (length xs) + k)) xs else drop (nat k) xs)"

text \<open>
  \<open>int(s)\<close> on a token: an optional sign, then decimal digits, single underscores allowed
  between digits; anything else is a ValueError (\<open>None\<close>). The whitespace that \<open>int\<close>
  would strip cannot occur: every argument is a token of \<open>split()\<close>.
\<close>

definition is_digit :: "char \<Rightarrow> bool" where
  "is_digit c = (c \<in> set ''0123456789'')"

definition digit_val :: "char \<Rightarrow> nat" where
  "digit_val c = of_char c - 48"

fun parse_digits :: "nat \<Rightarrow> bool \<Rightarrow> string \<Rightarrow> nat option" where
  "parse_digits acc after_digit [] = (if after_digit then Some acc else None)"
| "parse_digits acc after_digit (c # cs) =
     (if is_digit c then parse_digits (10 * acc + digit_val c) True cs
      else if c = CHR ''_'' \<and> after_digit then parse_digits acc False cs
      else None)"

definition py_int :: "string \<Rightarrow> int option" where
  "py_int s =
     (case s of
        [] \<Rightarrow> None
      | c # cs \<Rightarrow>
          if c = CHR ''-'' then map_option (\<lambda>n. - int n) (parse_digits 0 False cs)
          else if c = CHR ''+'' then map_option int (parse_digits 0 False cs)
          else map_option int (parse_digits 0 False s))"

text \<open>\<open>str(n)\<close> for an integer: decimal, with a minus sign below zero.\<close>

definition digit_char :: "nat \<Rightarrow> char" where
  "digit_char d = char_of (48 + d)"

function str_nat :: "nat \<Rightarrow> string" where
  "str_nat n = (if n < 10 then [digit_char n] else str_nat (n div 10) @ [digit_char (n mod 10)])"
  by pat_completeness auto
termination
  by (relation "measure (\<lambda>n. n)") auto

declare str_nat.simps [simp del]

definition py_str :: "int \<Rightarrow> string" where
  "py_str i = (if i < 0 then CHR ''-'' # str_nat (nat (- i)) else str_nat (nat i))"


section \<open>The remote API and the observable effects\<close>

text \<open>
  A commit of a history page: \<open>author\<close> is \<open>node.author\<close> (null, or an actor whose
  \<open>user\<close> is null or carries an id).
\<close>

record commit_node =
  author :: "string option option"
  additions :: int
  deletions :: int

record history =
  edges :: "commit_node list"
  hasNextPage :: bool
  endCursor :: "string option"

text \<open>
  The body of a history response: \<open>data.repository\<close> null, its \<open>defaultBranchRef\<close> null,
  or the history page of the default branch.
\<close>

datatype payload = NoRepository | EmptyBranch | Commits history

record response =
  status_code :: int
  body :: payload

text \<open>One entry of the repository enumeration; \<open>None\<close> is a null \<open>defaultBranchRef\<close>.\<close>

record repo_edge =
  nameWithOwner :: string
  totalCount :: "int option"

record repo_page =
  repo_status :: int
  repo_edges :: "repo_edge list"
  repo_hasNextPage :: bool
  repo_endCursor :: "string option"

text \<open>
  What a run does besides computing: the enumeration requests with their cursor, the history
  requests with owner, repository, cursor and the counter the debug line prints, the
  back-off sleeps in seconds, and the warning that a repository was cut at the ceiling.
\<close>

datatype event =
    Enumerate "string option"
  | Fetch string string "string option" nat
  | Sleep nat
  | Truncated string string

record world =
  ledger_file :: "string option"
  events :: "event list"

definition emit :: "event \<Rightarrow> world \<Rightarrow> world" where
  "emit e w = w\<lparr>events := events w @ [e]\<rparr>"

datatype exn =
    TypeError
  | ValueError
  | IndexError
  | FileNotFoundError
  | RateLimited
  | RequestFailed string int

text \<open>
  A call returns, raises, or is still waiting for the remote: the responses of the remote
  are given as a list, consumed one per request, and \<open>Unfinished\<close> is a request with no
  response left.
\<close>

datatype 'a outcome = Returned 'a | Raised exn | Unfinished

text \<open>\<open>recursive_loc\<close> returns the tuple of additions, deletions and own commits, or \<open>0\<close>.\<close>

datatype loc = Loc int int int | Zero

definition MAX_RETRIES :: nat where
  "MAX_RETRIES = 3"

definition RETRY_DELAY_BASE :: nat where
  "RETRY_DELAY_BASE = 2"

definition TRANSIENT_ERROR_CODES :: "int set" where
  "TRANSIENT_ERROR_CODES = {502, 503, 504}"

definition MAX_COMMITS_PER_REPO :: nat where
  "MAX_COMMITS_PER_REPO = 5000"


section \<open>The commit-history reducer\<close>

definition force_close_file :: "string list \<Rightarrow> string list \<Rightarrow> world \<Rightarrow> world" where
  "force_close_file data cache_comment w =
     w\<lparr>ledger_file := Some (writelines cache_comment @ writelines data)\<rparr>"

text \<open>
  The \<open>for node in history["edges"]\<close> loop of \<open>loc_counter_one_repo\<close>; a null author makes
  \<open>node["node"]["author"]["user"]\<close> a TypeError (\<open>None\<close>).
\<close>

fun count_own :: "string \<Rightarrow> commit_node list \<Rightarrow> int \<times> int \<times> int \<Rightarrow> (int \<times> int \<times> int) option" where
  "count_own owner_id [] acc = Some acc"
| "count_own owner_id (n # ns) (addition_total, deletion_total, my_commits) =
     (case author n of
        None \<Rightarrow> None
      | Some user \<Rightarrow>
          if user = Some owner_id
          then count_own owner_id ns
                 (addition_total + additions n, deletion_total + deletions n, my_commits + 1)
          else count_own owner_id ns (addition_total, deletion_total, my_commits))"

fun recursive_loc ::
    "string \<Rightarrow> string \<Rightarrow> string \<Rightarrow> string list \<Rightarrow> string list \<Rightarrow> int \<Rightarrow> int \<Rightarrow> int \<Rightarrow>
     string option \<Rightarrow> nat \<Rightarrow> nat \<Rightarrow> response list \<Rightarrow> world \<Rightarrow>
     loc outcome \<times> response list \<times> world"
  and loc_counter_one_repo ::
    "string \<Rightarrow> string \<Rightarrow> string \<Rightarrow> string list \<Rightarrow> string list \<Rightarrow> history \<Rightarrow> int \<Rightarrow> int \<Rightarrow> int \<Rightarrow>
     nat \<Rightarrow> response list \<Rightarrow> world \<Rightarrow> loc outcome \<times> response list \<times> world"
where
  "recursive_loc owner_id owner repo_name data cache_comment addition_total deletion_total
     my_commits cursor retry_count commits_fetched [] w =
     (Unfinished, [], emit (Fetch owner repo_name cursor commits_fetched) w)"
| "recursive_loc owner_id owner repo_name data cache_comment addition_total deletion_total
     my_commits cursor retry_count commits_fetched (request # remote) w =
     (let w1 = emit (Fetch owner repo_name cursor commits_fetched) w in
      if status_code request = 200 then
        (case body request of
           NoRepository \<Rightarrow> (Raised TypeError, remote, w1)
         | EmptyBranch \<Rightarrow> (Returned Zero, remote, w1)
         | Commits h \<Rightarrow>
             loc_counter_one_repo owner_id owner repo_name data cache_comment h
               addition_total deletion_total my_commits commits_fetched remote w1)
      else if status_code request \<in> TRANSIENT_ERROR_CODES \<and> retry_count < MAX_RETRIES then
        recursive_loc owner_id owner repo_name data cache_comment addition_total deletion_total
          my_commits cursor (retry_count + 1) 0 remote
          (emit (Sleep (RETRY_DELAY_BASE * 2 ^ retry_count)) w1)
      else
        (let w2 = force_close_file data cache_comment w1 in
         if status_code request = 403 then (Raised RateLimited, remote, w2)
         else (Raised (RequestFailed ''recursive_loc'' (status_code request)), remote, w2)))"
| "loc_counter_one_repo owner_id owner repo_name data cache_comment h addition_total
     deletion_total my_commits commits_fetched remote w =
     (let fetched = commits_fetched + length (edges h) in
      case count_own owner_id (edges h) (addition_total, deletion_total, my_commits) of
        None \<Rightarrow> (Raised TypeError, remote, w)
      | Some (a, d, m) \<Rightarrow>
          if edges h = [] \<or> \<not> hasNextPage h then (Returned (Loc a d m), remote, w)
          else if fetched \<ge> MAX_COMMITS_PER_REPO
          then (Returned (Loc a d m), remote, emit (Truncated owner repo_name) w)
          else recursive_loc owner_id owner repo_name data cache_comment a d m (endCursor h)
                 0 fetched remote w)"


section \<open>The ledger: rebuild, reconciliation, totals\<close>

text \<open>
  \<open>hashlib.sha256(s.encode("utf-8")).hexdigest()\<close> is library code: it is the parameter
  \<open>sha256\<close> of every function that hashes.
\<close>

text \<open>The literal \<open>" 0 0 0 0\n"\<close> that follows the hash in a zeroed line.\<close>

definition zero_fields :: string where
  "zero_fields = '' 0 0 0 0'' @ [newline]"

definition flush_cache ::
    "(string \<Rightarrow> string) \<Rightarrow> repo_edge list \<Rightarrow> int \<Rightarrow> world \<Rightarrow> unit outcome \<times> world" where
  "flush_cache sha256 es comment_size w =
     (case ledger_file w of
        None \<Rightarrow> (Raised FileNotFoundError, w)
      | Some s \<Rightarrow>
          (let data = (if comment_size > 0 then slice_upto (readlines s) comment_size else [])
           in (Returned (),
               w\<lparr>ledger_file :=
                    Some (writelines data
                          @ writelines (map (\<lambda>node. sha256 (nameWithOwner node)
                                                    @ zero_fields) es))\<rparr>)))"

text \<open>
  The body of the \<open>try\<close> of the loop of \<open>cache_builder\<close> for the line at \<open>index\<close>: it
  returns the data lines, updated when the commit count has changed.
\<close>

definition refresh_line ::
    "string \<Rightarrow> string list \<Rightarrow> nat \<Rightarrow> repo_edge \<Rightarrow> string \<Rightarrow> string \<Rightarrow> string list \<Rightarrow>
     response list \<Rightarrow> world \<Rightarrow> string list outcome \<times> response list \<times> world" where
  "refresh_line owner_id cache_comment index e repo_hash commit_count data remote w =
     (case py_int commit_count of
        None \<Rightarrow> (Raised ValueError, remote, w)
      | Some stored \<Rightarrow>
          (case totalCount e of
             None \<Rightarrow> (Raised TypeError, remote, w)
           | Some remote_total \<Rightarrow>
               if stored \<noteq> remote_total then
                 (case split_sep (CHR ''/'') (nameWithOwner e) of
                    [owner, repo_name] \<Rightarrow>
                      (case recursive_loc owner_id owner repo_name data cache_comment
                              0 0 0 None 0 0 remote w of
                         (Returned (Loc a d m), remote', w') \<Rightarrow>
                           (Returned (data[index := repo_hash @ '' '' @ py_str remote_total @ '' ''
                                        @ py_str m @ '' '' @ py_str a @ '' '' @ py_str d
                                        @ [newline]]), remote', w')
                       | (Returned Zero, remote', w') \<Rightarrow> (Raised TypeError, remote', w')
                       | (Raised x, remote', w') \<Rightarrow> (Raised x, remote', w')
                       | (Unfinished, remote', w') \<Rightarrow> (Unfinished, remote', w'))
                  | _ \<Rightarrow> (Raised ValueError, remote, w))
               else (Returned data, remote, w)))"

text \<open>
  One round of the loop \<open>for index in range(len(edges))\<close> of \<open>cache_builder\<close>: the line
  is taken apart, and when its hash is the hash of the repository at \<open>index\<close> the \<open>try\<close> body
  runs; its TypeError is caught and zeroes the line.
\<close>

definition cache_step ::
    "(string \<Rightarrow> string) \<Rightarrow> string \<Rightarrow> string list \<Rightarrow> nat \<Rightarrow> repo_edge \<Rightarrow> string list \<Rightarrow>
     response list \<Rightarrow> world \<Rightarrow> string list outcome \<times> response list \<times> world" where
  "cache_step sha256 owner_id cache_comment index e data remote w =
     (if index \<ge> length data then (Raised IndexError, remote, w)
      else
        (case split_ws (data ! index) of
           repo_hash # commit_count # _ \<Rightarrow>
             if repo_hash = sha256 (nameWithOwner e) then
               (case refresh_line owner_id cache_comment index e repo_hash commit_count
                       data remote w of
                  (Raised TypeError, remote', w') \<Rightarrow>
                    (Returned (data[index := repo_hash @ zero_fields]), remote', w')
                | r \<Rightarrow> r)
             else (Returned data, remote, w)
         | _ \<Rightarrow> (Raised ValueError, remote, w)))"

text \<open>The loop itself, on the entries from \<open>index\<close> on; an exception ends it.\<close>

fun cache_loop ::
    "(string \<Rightarrow> string) \<Rightarrow> string \<Rightarrow> string list \<Rightarrow> nat \<Rightarrow> repo_edge list \<Rightarrow> string list \<Rightarrow>
     response list \<Rightarrow> world \<Rightarrow> string list outcome \<times> response list \<times> world" where
  "cache_loop sha256 owner_id cache_comment index [] data remote w = (Returned data, remote, w)"
| "cache_loop sha256 owner_id cache_comment index (e # es) data remote w =
     (case cache_step sha256 owner_id cache_comment index e data remote w of
        (Returned data', remote', w') \<Rightarrow>
          cache_loop sha256 owner_id cache_comment (index + 1) es data' remote' w'
      | (Raised x, remote', w') \<Rightarrow> (Raised x, remote', w')
      | (Unfinished, remote', w') \<Rightarrow> (Unfinished, remote', w'))"

text \<open>The loop \<open>for line in data\<close> that adds up the fourth and fifth field of every line.\<close>

fun sum_loc :: "string list \<Rightarrow> int \<Rightarrow> int \<Rightarrow> (int \<times> int) outcome" where
  "sum_loc [] loc_add loc_del = Returned (loc_add, loc_del)"
| "sum_loc (line # ls) loc_add loc_del =
     (let loc = split_ws line in
      if length loc \<le> 3 then Raised IndexError
      else
        (case py_int (loc ! 3) of
           None \<Rightarrow> Raised ValueError
         | Some x \<Rightarrow>
             if length loc \<le> 4 then Raised IndexError
             else
               (case py_int (loc ! 4) of
                  None \<Rightarrow> Raised ValueError
                | Some y \<Rightarrow> sum_loc ls (loc_add + x) (loc_del + y))))"

definition comment_line :: string where
  "comment_line = ''This line is a comment block. Write whatever you want here.'' @ [newline]"

text \<open>
  The first part of \<open>cache_builder\<close>: the cache file is read, or created with
  \<open>comment_size\<close> comment lines when it does not exist.
\<close>

definition read_cache :: "int \<Rightarrow> world \<Rightarrow> string list \<times> world" where
  "read_cache comment_size w =
     (case ledger_file w of
        Some s \<Rightarrow> (readlines s, w)
      | None \<Rightarrow>
          (let data = replicate (nat comment_size) comment_line
           in (data, w\<lparr>ledger_file := Some (writelines data)\<rparr>)))"

text \<open>
  \<open>cache_builder\<close> up to its loop: the flag \<open>cached\<close>, the comment block and the data
  lines, after the cache has been flushed and read again when the number of data lines is
  not the number of repositories or \<open>force_cache\<close> is set.
\<close>

definition cache_prepare ::
    "(string \<Rightarrow> string) \<Rightarrow> repo_edge list \<Rightarrow> int \<Rightarrow> bool \<Rightarrow> world \<Rightarrow>
     (bool \<times> string list \<times> string list) outcome \<times> world" where
  "cache_prepare sha256 es comment_size force_cache w =
     (case read_cache comment_size w of
        (data0, w0) \<Rightarrow>
          if int (length data0) - comment_size \<noteq> int (length es) \<or> force_cache then
            (case flush_cache sha256 es comment_size w0 of
               (Returned _, w1) \<Rightarrow>
                 (case ledger_file w1 of
                    Some s1 \<Rightarrow>
                      (Returned (False, slice_upto (readlines s1) comment_size,
                                 slice_from (readlines s1) comment_size), w1)
                  | None \<Rightarrow> (Raised FileNotFoundError, w1))
             | (Raised x, w1) \<Rightarrow> (Raised x, w1)
             | (Unfinished, w1) \<Rightarrow> (Unfinished, w1))
          else (Returned (True, slice_upto data0 comment_size, slice_from data0 comment_size),
                w0))"

text \<open>
  \<open>cache_builder\<close> returns the list \<open>[loc_add, loc_del, loc_add - loc_del, cached]\<close>, here a
  tuple.
\<close>

definition cache_builder ::
    "(string \<Rightarrow> string) \<Rightarrow> string \<Rightarrow> repo_edge list \<Rightarrow> int \<Rightarrow> bool \<Rightarrow> int \<Rightarrow> int \<Rightarrow>
     response list \<Rightarrow> world \<Rightarrow> (int \<times> int \<times> int \<times> bool) outcome \<times> response list \<times> world" where
  "cache_builder sha256 owner_id es comment_size force_cache loc_add loc_del remote w =
     (case cache_prepare sha256 es comment_size force_cache w of
        (Returned (cached, cache_comment, data), w1) \<Rightarrow>
          (case cache_loop sha256 owner_id cache_comment 0 es data remote w1 of
             (Returned data', remote', w2) \<Rightarrow>
               (let w3 = w2\<lparr>ledger_file :=
                              Some (writelines cache_comment @ writelines data')\<rparr>
                in case sum_loc data' loc_add loc_del of
                     Returned (la, ld) \<Rightarrow> (Returned (la, ld, la - ld, cached), remote', w3)
                   | Raised x \<Rightarrow> (Raised x, remote', w3)
                   | Unfinished \<Rightarrow> (Unfinished, remote', w3))
           | (Raised x, remote', w2) \<Rightarrow> (Raised x, remote', w2)
           | (Unfinished, remote', w2) \<Rightarrow> (Unfinished, remote', w2))
      | (Raised x, w1) \<Rightarrow> (Raised x, remote, w1)
      | (Unfinished, w1) \<Rightarrow> (Unfinished, remote, w1))"

text \<open>
  \<open>loc_query\<close>: the enumeration, page by page through \<open>simple_request\<close>, which raises on
  every status other than 200; the last page hands all entries to \<open>cache_builder\<close>. The
  main program calls it once, with no cursor and no entries gathered yet.
\<close>

fun loc_query ::
    "(string \<Rightarrow> string) \<Rightarrow> string \<Rightarrow> int \<Rightarrow> bool \<Rightarrow> string option \<Rightarrow> repo_edge list \<Rightarrow>
     repo_page list \<Rightarrow> response list \<Rightarrow> world \<Rightarrow>
     (int \<times> int \<times> int \<times> bool) outcome \<times> response list \<times> world" where
  "loc_query sha256 owner_id comment_size force_cache cursor es [] remote w =
     (Unfinished, remote, emit (Enumerate cursor) w)"
| "loc_query sha256 owner_id comment_size force_cache cursor es (request # pages) remote w =
     (let w1 = emit (Enumerate cursor) w in
      if repo_status request = 200 then
        (if repo_hasNextPage request
         then loc_query sha256 owner_id comment_size force_cache (repo_endCursor request)
                (es @ repo_edges request) pages remote w1
         else cache_builder sha256 owner_id (es @ repo_edges request) comment_size force_cache
                0 0 remote w1)
      else (Raised (RequestFailed ''loc_query'' (repo_status request)), remote, w1))"


section \<open>The archive\<close>

text \<open>The loop \<open>for line in data\<close> of \<open>add_archive\<close>.\<close>

fun archive_sum :: "string list \<Rightarrow> int \<Rightarrow> int \<Rightarrow> (int \<times> int) outcome" where
  "archive_sum [] added_loc deleted_loc = Returned (added_loc, deleted_loc)"
| "archive_sum (line # ls) added_loc deleted_loc =
     (case split_ws line of
        repo_hash # total_commits # my_commits # loc \<Rightarrow>
          (case loc of
             [] \<Rightarrow> Raised IndexError
           | l0 # loc' \<Rightarrow>
               (case py_int l0 of
                  None \<Rightarrow> Raised ValueError
                | Some x \<Rightarrow>
                    (case loc' of
                       [] \<Rightarrow> Raised IndexError
                     | l1 # _ \<Rightarrow>
                         (case py_int l1 of
                            None \<Rightarrow> Raised ValueError
                          | Some y \<Rightarrow> archive_sum ls (added_loc + x) (deleted_loc + y)))))
      | _ \<Rightarrow> Raised ValueError)"

text \<open>
  The fourth entry of the list that \<open>add_archive\<close> returns is a string when the archive was
  read and the integer \<open>0\<close> when it was not.
\<close>

datatype pyval = PyStr string | PyInt int

definition add_archive_body :: "string option \<Rightarrow> (int \<times> int \<times> int \<times> pyval \<times> int) outcome" where
  "add_archive_body archive =
     (case archive of
        None \<Rightarrow> Raised FileNotFoundError
      | Some s \<Rightarrow>
          (let old_data = readlines s;
               data = slice_from (slice_upto old_data (int (length old_data) - 3)) 7;
               contributed_repos = int (length data)
           in case archive_sum data 0 0 of
                Returned (added_loc, deleted_loc) \<Rightarrow>
                  if old_data = [] then Raised IndexError
                  else
                    (let tokens = split_ws (last old_data) in
                     if length tokens \<le> 4 then Raised IndexError
                     else Returned (added_loc, deleted_loc, added_loc - deleted_loc,
                                    PyStr (butlast (tokens ! 4)), contributed_repos))
              | Raised x \<Rightarrow> Raised x
              | Unfinished \<Rightarrow> Unfinished))"

definition add_archive :: "string option \<Rightarrow> int \<times> int \<times> int \<times> pyval \<times> int" where
  "add_archive archive =
     (case add_archive_body archive of
        Returned r \<Rightarrow> r
      | _ \<Rightarrow> (0, 0, 0, PyInt 0, 0))"

text \<open>\<open>int(x)\<close> where \<open>x\<close> is a string or already an integer.\<close>

definition py_int_of :: "pyval \<Rightarrow> int option" where
  "py_int_of v = (case v of PyStr s \<Rightarrow> py_int s | PyInt n \<Rightarrow> Some n)"

text \<open>The numbers the main program holds when it merges the archive.\<close>

record stats =
  total_loc :: "int \<times> int \<times> int \<times> bool"
  commit_data :: int
  star_data :: int
  repo_data :: int
  contrib_data :: int
  follower_data :: int

text \<open>
  The merge of the main program: only when the id of the user equals the environment's
  \<open>NODE_ID\<close> (unset is \<open>None\<close>).
\<close>

definition merge_archive :: "string \<Rightarrow> string option \<Rightarrow> string option \<Rightarrow> stats \<Rightarrow> stats outcome" where
  "merge_archive owner_id node_id archive st =
     (if Some owner_id = node_id then
        (case add_archive archive of
           (a0, a1, a2, my_commits, contributed_repos) \<Rightarrow>
             (case total_loc st of
                (t0, t1, t2, cached) \<Rightarrow>
                  (case py_int_of my_commits of
                     None \<Rightarrow> Raised ValueError
                   | Some c \<Rightarrow>
                       Returned (st\<lparr>total_loc := (t0 + a0, t1 + a1, t2 + a2, cached),
                                    contrib_data := contrib_data st + contributed_repos,
                                    commit_data := commit_data st + c\<rparr>))))
      else Returned st)"


section \<open>Notions used in the statements\<close>

text \<open>The exceptions that \<open>recursive_loc\<close> raises for a failed request.\<close>

fun remote_failure :: "exn \<Rightarrow> bool" where
  "remote_failure RateLimited = True"
| "remote_failure (RequestFailed f s) = True"
| "remote_failure _ = False"

text \<open>
  A well-formed ledger: a line as the program writes it ends with its only \<open>\n\<close>; a
  digest is a non-empty word without whitespace; the file holds its comment block, that is
  at least \<open>comment_size\<close> lines, each of them closed by \<open>\n\<close>; or all its lines are
  closed by \<open>\n\<close>.
\<close>

definition terminated :: "string \<Rightarrow> bool" where
  "terminated l = (l \<noteq> [] \<and> last l = newline \<and> newline \<notin> set (butlast l))"

definition digest_ok :: "(string \<Rightarrow> string) \<Rightarrow> repo_edge list \<Rightarrow> bool" where
  "digest_ok digest es =
     list_all (\<lambda>e. digest (nameWithOwner e) \<noteq> []
                   \<and> list_all (\<lambda>c. \<not> is_space c) (digest (nameWithOwner e))) es"

definition header_ok :: "int \<Rightarrow> string list \<Rightarrow> bool" where
  "header_ok comment_size ls =
     (0 \<le> comment_size \<and> nat comment_size \<le> length ls
      \<and> list_all (\<lambda>l. last l = newline) (take (nat comment_size) ls))"

definition ledger_ok :: "int \<Rightarrow> string list \<Rightarrow> bool" where
  "ledger_ok comment_size ls =
     (0 \<le> comment_size \<and> nat comment_size \<le> length ls
      \<and> list_all (\<lambda>l. last l = newline) ls)"

text \<open>The number of commits in the history pages that a list of responses holds.\<close>

fun commits_served :: "response list \<Rightarrow> nat" where
  "commits_served [] = 0"
| "commits_served (r # rs) =
     (if status_code r = 200
      then (case body r of Commits h \<Rightarrow> length (edges h) | _ \<Rightarrow> 0)
      else 0) + commits_served rs"

text \<open>The number of history requests among the events of a run.\<close>

fun is_fetch :: "event \<Rightarrow> bool" where
  "is_fetch (Fetch owner repo cursor fetched) = True"
| "is_fetch _ = False"

definition requests_sent :: "world \<Rightarrow> nat" where
  "requests_sent w = length (filter is_fetch (events w))"

text \<open>
  The archive in the words of the specification: the value of the field at a place of a
  line, the sum of a field over lines, and a line that has five fields with integers at
  the fourth and fifth place.
\<close>

definition field_value :: "nat \<Rightarrow> string \<Rightarrow> int" where
  "field_value k line = (case py_int (split_ws line ! k) of Some v \<Rightarrow> v | None \<Rightarrow> 0)"

definition field_sum :: "nat \<Rightarrow> string list \<Rightarrow> int" where
  "field_sum k ls = sum_list (map (field_value k) ls)"

definition archive_line_ok :: "string \<Rightarrow> bool" where
  "archive_line_ok line =
     (4 < length (split_ws line) \<and> py_int (split_ws line ! 3) \<noteq> None
      \<and> py_int (split_ws line ! 4) \<noteq> None)"

text \<open>
  For a second run: a response that, when its status is 200, reports commits none of which
  has a null author; and a line that the loop leaves as it is (its hash is not the one of
  the repository, or its count is the remote count, or the branch is null and the line is
  the zeroed one).
\<close>

definition clean_response :: "response \<Rightarrow> bool" where
  "clean_response r =
     (status_code r = 200 \<longrightarrow>
        (case body r of
           Commits h \<Rightarrow> list_all (\<lambda>n. author n \<noteq> None) (edges h)
         | _ \<Rightarrow> False))"

definition settled :: "(string \<Rightarrow> string) \<Rightarrow> repo_edge \<Rightarrow> string \<Rightarrow> bool" where
  "settled digest e line =
     (case split_ws line of
        h # c # _ \<Rightarrow>
          (h = digest (nameWithOwner e) \<longrightarrow>
             (case totalCount e of
                None \<Rightarrow> py_int c \<noteq> None \<and> line = h @ zero_fields
              | Some t \<Rightarrow> py_int c = Some t))
      | _ \<Rightarrow> False)"


section \<open>Example data\<close>

text \<open>
  The theorems below hold for every function \<open>sha256\<close>. The examples that evaluate a run
  need one function to compute with: \<open>hex_digest\<close> writes every character of the name as
  two hexadecimal digits, so it is injective and its values are hexadecimal like a digest.
\<close>

definition hex_digit :: "nat \<Rightarrow> char" where
  "hex_digit n = ''0123456789abcdef'' ! (n mod 16)"

definition hex_digest :: "string \<Rightarrow> string" where
  "hex_digest s = concat (map (\<lambda>c. [hex_digit (of_char c div 16), hex_digit (of_char c)]) s)"

text \<open>A commit of the user \<open>me\<close>, a history page of such commits, a failed request.\<close>

definition example_commit :: commit_node where
  "example_commit = \<lparr>author = Some (Some ''me''), additions = 3, deletions = 1\<rparr>"

definition example_page :: "nat \<Rightarrow> bool \<Rightarrow> response" where
  "example_page n has_next =
     \<lparr>status_code = 200,
      body = Commits \<lparr>edges = replicate n example_commit, hasNextPage = has_next,
                      endCursor = Some ''c''\<rparr>\<rparr>"

definition example_failure :: "int \<Rightarrow> response" where
  "example_failure s = \<lparr>status_code = s, body = NoRepository\<rparr>"

text \<open>
  Two repositories and a ledger of one comment line and their two lines, both out of date;
  the world that a run leaves which refreshes both; a third repository with a null branch;
  a ledger whose only data line carries a hash of no repository.
\<close>

definition example_repos :: "repo_edge list" where
  "example_repos = [\<lparr>nameWithOwner = ''a/b'', totalCount = Some 5\<rparr>,
                    \<lparr>nameWithOwner = ''a/c'', totalCount = Some 7\<rparr>]"

definition example_ledger :: "string list" where
  "example_ledger = [''612f62 3 1 2 3'' @ [newline], ''612f63 4 1 1 1'' @ [newline]]"

definition example_world :: world where
  "example_world = \<lparr>ledger_file = Some (writelines ([''header'' @ [newline]] @ example_ledger)),
                     events = []\<rparr>"

definition example_refreshed_world :: world where
  "example_refreshed_world =
     \<lparr>ledger_file = Some (writelines [''header'' @ [newline], ''612f62 5 2 6 2'' @ [newline],
                                      ''612f63 7 1 3 1'' @ [newline]]),
      events = [Fetch ''a'' ''b'' None 0, Fetch ''a'' ''c'' None 0]\<rparr>"

definition example_new_repo :: repo_edge where
  "example_new_repo = \<lparr>nameWithOwner = ''a/d'', totalCount = None\<rparr>"

definition example_stale_world :: world where
  "example_stale_world =
     \<lparr>ledger_file = Some (writelines [''header'' @ [newline], ''deadbeef 3 1 7 2'' @ [newline]]),
      events = []\<rparr>"

text \<open>An archive of three repositories, and the totals of a main program.\<close>

definition example_archive :: string where
  "example_archive =
     writelines (replicate 7 (''comment'' @ [newline])
                 @ [''0a 9 2 60 30'' @ [newline], ''0b 8 1 40 10'' @ [newline],
                    ''0c 1 1 0 0'' @ [newline]]
                 @ [''footer'' @ [newline], ''footer'' @ [newline], ''a b c d 57'' @ [newline]])"

definition example_stats :: stats where
  "example_stats = \<lparr>total_loc = (1000, 400, 600, True), commit_data = 10, star_data = 1,
                     repo_data = 2, contrib_data = 4, follower_data = 3\<rparr>"


section \<open>The reducer: one request at a time\<close>

declare recursive_loc.simps [simp del] loc_counter_one_repo.simps [simp del]

lemma recursive_loc_Nil:
  "recursive_loc oid owner repo data cc a d m cursor rc cf [] w
   = (Unfinished, [], emit (Fetch owner repo cursor cf) w)"
  by (simp add: recursive_loc.simps)

lemma recursive_loc_no_repo:
  assumes "status_code request = 200" and "body request = NoRepository"
  shows "recursive_loc oid owner repo data cc a d m cursor rc cf (request # remote) w
         = (Raised TypeError, remote, emit (Fetch owner repo cursor cf) w)"
  using assms by (simp add: recursive_loc.simps Let_def)

lemma recursive_loc_empty:
  assumes "status_code request = 200" and "body request = EmptyBranch"
  shows "recursive_loc oid owner repo data cc a d m cursor rc cf (request # remote) w
         = (Returned Zero, remote, emit (Fetch owner repo cursor cf) w)"
  using assms by (simp add: recursive_loc.simps Let_def)

lemma loc_counter_type_error:
  assumes "count_own oid (edges h) (a, d, m) = None"
  shows "loc_counter_one_repo oid owner repo data cc h a d m cf remote w = (Raised TypeError, remote, w)"
  using assms by (simp add: loc_counter_one_repo.simps)

lemma loc_counter_last:
  assumes "count_own oid (edges h) (a, d, m) = Some (a', d', m')"
      and "edges h = [] \<or> \<not> hasNextPage h"
  shows "loc_counter_one_repo oid owner repo data cc h a d m cf remote w
         = (Returned (Loc a' d' m'), remote, w)"
  using assms by (auto simp add: loc_counter_one_repo.simps)

lemma loc_counter_ceiling:
  assumes "count_own oid (edges h) (a, d, m) = Some (a', d', m')"
      and "edges h \<noteq> []" and "hasNextPage h"
      and "cf + length (edges h) \<ge> MAX_COMMITS_PER_REPO"
  shows "loc_counter_one_repo oid owner repo data cc h a d m cf remote w
         = (Returned (Loc a' d' m'), remote, emit (Truncated owner repo) w)"
  using assms by (simp add: loc_counter_one_repo.simps Let_def)

lemma loc_counter_next:
  assumes "count_own oid (edges h) (a, d, m) = Some (a', d', m')"
      and "edges h \<noteq> []" and "hasNextPage h"
      and "cf + length (edges h) < MAX_COMMITS_PER_REPO"
  shows "loc_counter_one_repo oid owner repo data cc h a d m cf remote w
         = recursive_loc oid owner repo data cc a' d' m' (endCursor h) 0 (cf + length (edges h)) remote w"
  using assms by (simp add: loc_counter_one_repo.simps Let_def)

lemma transient_not_200: "s \<in> TRANSIENT_ERROR_CODES \<Longrightarrow> s \<noteq> 200"
  by (auto simp: TRANSIENT_ERROR_CODES_def)

lemma recursive_loc_retry:
  assumes "status_code request \<in> TRANSIENT_ERROR_CODES" and "retry_count < MAX_RETRIES"
  shows "recursive_loc oid owner repo data cc a d m cursor retry_count commits_fetched (request # remote) w
         = recursive_loc oid owner repo data cc a d m cursor (retry_count + 1) 0 remote
             (emit (Sleep (RETRY_DELAY_BASE * 2 ^ retry_count))
                (emit (Fetch owner repo cursor commits_fetched) w))"
  using assms transient_not_200[OF assms(1)] by (simp add: recursive_loc.simps Let_def)

lemma recursive_loc_page:
  assumes "status_code request = 200" and "body request = Commits h"
  shows "recursive_loc oid owner repo data cc a d m cursor retry_count commits_fetched (request # remote) w
         = loc_counter_one_repo oid owner repo data cc h a d m commits_fetched remote
             (emit (Fetch owner repo cursor commits_fetched) w)"
  using assms by (simp add: recursive_loc.simps Let_def)

lemma recursive_loc_fail:
  assumes "status_code request \<noteq> 200"
      and "\<not> (status_code request \<in> TRANSIENT_ERROR_CODES \<and> retry_count < MAX_RETRIES)"
  shows "recursive_loc oid owner repo data cc a d m cursor retry_count commits_fetched (request # remote) w
         = (Raised (if status_code request = 403 then RateLimited
                    else RequestFailed ''recursive_loc'' (status_code request)),
            remote,
            force_close_file data cc (emit (Fetch owner repo cursor commits_fetched) w))"
  using assms by (auto simp add: recursive_loc.simps Let_def)

lemma events_grow:
  "\<exists>rest. events (snd (snd (recursive_loc oid owner repo data cc a d m cursor rc cf remote w)))
            = events w @ Fetch owner repo cursor cf # rest"
  "\<exists>rest. events (snd (snd (loc_counter_one_repo oid owner repo data cc h a d m cf remote w)))
            = events w @ rest"
proof (induction oid owner repo data cc a d m cursor rc cf remote w
        and oid owner repo data cc h a d m cf remote w
        rule: recursive_loc_loc_counter_one_repo.induct)
  case (1 oid owner repo data cc a d m cursor rc cf w)
  then show ?case by (simp add: recursive_loc_Nil emit_def)
next
  case (2 oid owner repo data cc a d m cursor rc cf request remote w)
  show ?case
  proof (cases "status_code request = 200")
    case True
    show ?thesis
    proof (cases "body request")
      case NoRepository
      with True show ?thesis by (simp add: recursive_loc_no_repo emit_def)
    next
      case EmptyBranch
      with True show ?thesis by (simp add: recursive_loc_empty emit_def)
    next
      case (Commits h)
      from "2.IH"(1)[OF refl True Commits] obtain rest where
        "events (snd (snd (loc_counter_one_repo oid owner repo data cc h a d m cf remote
            (emit (Fetch owner repo cursor cf) w)))) = events (emit (Fetch owner repo cursor cf) w) @ rest"
        by blast
      with True Commits show ?thesis by (simp add: recursive_loc_page emit_def)
    qed
  next
    case False
    show ?thesis
    proof (cases "status_code request \<in> TRANSIENT_ERROR_CODES \<and> rc < MAX_RETRIES")
      case True
      from "2.IH"(2)[OF refl False True] obtain rest where
        "events (snd (snd (recursive_loc oid owner repo data cc a d m cursor (rc + 1) 0 remote
            (emit (Sleep (RETRY_DELAY_BASE * 2 ^ rc)) (emit (Fetch owner repo cursor cf) w)))))
         = events (emit (Sleep (RETRY_DELAY_BASE * 2 ^ rc)) (emit (Fetch owner repo cursor cf) w))
           @ Fetch owner repo cursor 0 # rest"
        by blast
      with True show ?thesis by (simp add: recursive_loc_retry emit_def)
    next
      case F2: False
      show ?thesis
        by (simp add: recursive_loc_fail[OF False F2] emit_def force_close_file_def)
    qed
  qed
next
  case (3 oid owner repo data cc h a d m cf remote w)
  show ?case
  proof (cases "count_own oid (edges h) (a, d, m)")
    case None
    then show ?thesis by (simp add: loc_counter_type_error)
  next
    case (Some t)
    obtain a' d' m' where t: "t = (a', d', m')" by (cases t) auto
    show ?thesis
    proof (cases "edges h = [] \<or> \<not> hasNextPage h")
      case True
      with Some t show ?thesis by (simp add: loc_counter_last)
    next
      case False
      show ?thesis
      proof (cases "cf + length (edges h) \<ge> MAX_COMMITS_PER_REPO")
        case True
        with False Some t show ?thesis by (simp add: loc_counter_ceiling emit_def)
      next
        case F3: False
        from "3.IH"[OF refl Some t[symmetric] refl False] F3
        obtain rest where "events (snd (snd (recursive_loc oid owner repo data cc a' d' m' (endCursor h) 0
            (cf + length (edges h)) remote w))) = events w @ Fetch owner repo (endCursor h) (cf + length (edges h)) # rest"
          by (auto simp: Let_def)
        with False F3 Some t show ?thesis by (simp add: loc_counter_next)
      qed
    qed
  qed
qed

lemma count_own_replicate:
  "author c = Some (Some oid) \<Longrightarrow>
   count_own oid (replicate n c) (a, d, m)
   = Some (a + int n * additions c, d + int n * deletions c, m + int n)"
  by (induction n arbitrary: a d m) (simp_all add: algebra_simps)

lemma world_events_same [simp]: "w\<lparr>events := events w\<rparr> = w"
  by simp

lemma retry_steps:
  assumes "\<forall>r \<in> set fails. status_code r \<in> TRANSIENT_ERROR_CODES"
      and "rc + length fails \<le> MAX_RETRIES"
  shows "\<exists>evs. recursive_loc oid owner repo data cc a d m cursor rc cf (fails @ remote) w
         = recursive_loc oid owner repo data cc a d m cursor (rc + length fails)
             (if fails = [] then cf else 0) remote (w\<lparr>events := events w @ evs\<rparr>)
         \<and> evs = concat (map (\<lambda>i. [Fetch owner repo cursor (if i = 0 then cf else 0),
                                      Sleep (RETRY_DELAY_BASE * 2 ^ (rc + i))]) [0..<length fails])"
  using assms
proof (induction fails arbitrary: rc cf w)
  case Nil
  then show ?case by simp
next
  case (Cons r fails)
  have t: "status_code r \<in> TRANSIENT_ERROR_CODES" and lt: "rc < MAX_RETRIES"
    using Cons.prems by auto
  have ih: "\<exists>evs. recursive_loc oid owner repo data cc a d m cursor (rc + 1) 0 (fails @ remote)
               (emit (Sleep (RETRY_DELAY_BASE * 2 ^ rc)) (emit (Fetch owner repo cursor cf) w))
         = recursive_loc oid owner repo data cc a d m cursor (rc + 1 + length fails)
             (if fails = [] then 0 else 0) remote
             ((emit (Sleep (RETRY_DELAY_BASE * 2 ^ rc)) (emit (Fetch owner repo cursor cf) w))
                \<lparr>events := events (emit (Sleep (RETRY_DELAY_BASE * 2 ^ rc)) (emit (Fetch owner repo cursor cf) w)) @ evs\<rparr>)
         \<and> evs = concat (map (\<lambda>i. [Fetch owner repo cursor (if i = 0 then 0 else 0),
                                      Sleep (RETRY_DELAY_BASE * 2 ^ (rc + 1 + i))]) [0..<length fails])"
    using Cons.IH[of "rc + 1" 0] Cons.prems by simp
  have shift: "map (\<lambda>i. [Fetch owner repo cursor (if i = 0 then cf else 0),
                                      Sleep (RETRY_DELAY_BASE * 2 ^ (rc + i))]) [0..<Suc (length fails)]
     = [Fetch owner repo cursor cf, Sleep (RETRY_DELAY_BASE * 2 ^ rc)]
       # map (\<lambda>i. [Fetch owner repo cursor 0, Sleep (RETRY_DELAY_BASE * 2 ^ (rc + 1 + i))]) [0..<length fails]"
    by (simp add: upt_rec[of 0 "Suc (length fails)"] map_Suc_upt[symmetric] del: upt_Suc)
  show ?case
    using ih by (simp add: recursive_loc_retry[OF t lt] emit_def shift del: upt_Suc)
qed

section \<open>Retries\<close>

lemma upt_0_3: "[0..<3] = [0, 1, 2]" "[0..<2] = [0,1]" "[0..<1] = [0]"
  by (simp_all add: upt_rec)

lemma length_le_3_cases:
  "length xs \<le> 3 \<Longrightarrow> length xs = 0 \<or> length xs = 1 \<or> length xs = 2 \<or> length xs = 3"
  by arith

text \<open>
  C5. A history fetch that meets up to three transient failures (502, 503, 504) in a row is
  sent again with the same arguments after sleeping 2, then 4, then 8 seconds; after three
  failures a success is handled like any page, and no file is written; a fourth failure in a
  row writes the ledger and raises. An enumeration request that fails raises at once: it is
  not sent again and no sleep happens.
\<close>

theorem transient_failures_retried:
  assumes "\<forall>r \<in> set fails. status_code r \<in> TRANSIENT_ERROR_CODES"
  shows "(length fails \<le> 3 \<longrightarrow>
            recursive_loc oid owner repo data cc a d m cursor 0 cf (fails @ remote) w
            = recursive_loc oid owner repo data cc a d m cursor (length fails)
                (if fails = [] then cf else 0) remote
                (w\<lparr>events := events w @ take (2 * length fails)
                     [Fetch owner repo cursor cf, Sleep 2, Fetch owner repo cursor 0, Sleep 4,
                      Fetch owner repo cursor 0, Sleep 8]\<rparr>))
       \<and> (length fails = 3 \<and> status_code ok = 200 \<and> body ok = Commits h \<longrightarrow>
            recursive_loc oid owner repo data cc a d m cursor 0 cf (fails @ ok # remote) w
            = loc_counter_one_repo oid owner repo data cc h a d m 0 remote
                (w\<lparr>events := events w @
                     [Fetch owner repo cursor cf, Sleep 2, Fetch owner repo cursor 0, Sleep 4,
                      Fetch owner repo cursor 0, Sleep 8, Fetch owner repo cursor 0]\<rparr>))
       \<and> (length fails = 4 \<longrightarrow>
            recursive_loc oid owner repo data cc a d m cursor 0 cf (fails @ remote) w
            = (Raised (RequestFailed ''recursive_loc'' (status_code (last fails))), remote,
               w\<lparr>ledger_file := Some (writelines cc @ writelines data),
                  events := events w @
                     [Fetch owner repo cursor cf, Sleep 2, Fetch owner repo cursor 0, Sleep 4,
                      Fetch owner repo cursor 0, Sleep 8, Fetch owner repo cursor 0]\<rparr>))
       \<and> (repo_status page \<noteq> 200 \<longrightarrow>
            loc_query digest oid comment_size force_cache enum_cursor es (page # pages) remote w
            = (Raised (RequestFailed ''loc_query'' (repo_status page)), remote,
               emit (Enumerate enum_cursor) w))"
proof (intro conjI impI)
  assume len: "length fails \<le> 3"
  then have b: "0 + length fails \<le> MAX_RETRIES" by (simp add: MAX_RETRIES_def)
  from retry_steps[OF assms b, of oid owner repo data cc a d m cursor cf remote w]
  have eq: "recursive_loc oid owner repo data cc a d m cursor 0 cf (fails @ remote) w
         = recursive_loc oid owner repo data cc a d m cursor (length fails)
             (if fails = [] then cf else 0) remote
             (w\<lparr>events := events w @ concat (map (\<lambda>i. [Fetch owner repo cursor (if i = 0 then cf else 0),
                                      Sleep (RETRY_DELAY_BASE * 2 ^ i)]) [0..<length fails])\<rparr>)"
    by auto
  have "concat (map (\<lambda>i. [Fetch owner repo cursor (if i = 0 then cf else 0),
                                      Sleep (RETRY_DELAY_BASE * 2 ^ i)]) [0..<length fails])
        = take (2 * length fails)
                     [Fetch owner repo cursor cf, Sleep 2, Fetch owner repo cursor 0, Sleep 4,
                      Fetch owner repo cursor 0, Sleep 8]"
    using length_le_3_cases[OF len]
    by (elim disjE) (simp_all add: upt_0_3 RETRY_DELAY_BASE_def)
  with eq show "recursive_loc oid owner repo data cc a d m cursor 0 cf (fails @ remote) w
            = recursive_loc oid owner repo data cc a d m cursor (length fails)
                (if fails = [] then cf else 0) remote
                (w\<lparr>events := events w @ take (2 * length fails)
                     [Fetch owner repo cursor cf, Sleep 2, Fetch owner repo cursor 0, Sleep 4,
                      Fetch owner repo cursor 0, Sleep 8]\<rparr>)"
    by simp
next
  assume h: "length fails = 3 \<and> status_code ok = 200 \<and> body ok = Commits h"
  then have b: "0 + length fails \<le> MAX_RETRIES" by (simp add: MAX_RETRIES_def)
  from h have ne: "fails \<noteq> []" by auto
  from retry_steps[OF assms b, of oid owner repo data cc a d m cursor cf "ok # remote" w] h ne
  show "recursive_loc oid owner repo data cc a d m cursor 0 cf (fails @ ok # remote) w
            = loc_counter_one_repo oid owner repo data cc h a d m 0 remote
                (w\<lparr>events := events w @
                     [Fetch owner repo cursor cf, Sleep 2, Fetch owner repo cursor 0, Sleep 4,
                      Fetch owner repo cursor 0, Sleep 8, Fetch owner repo cursor 0]\<rparr>)"
    by (simp add: upt_0_3 RETRY_DELAY_BASE_def recursive_loc_page emit_def)
next
  assume len: "length fails = 4"
  then obtain front r where fr: "fails = front @ [r]" and lf: "length front = 3"
    by (cases fails rule: rev_cases) auto
  have tf: "\<forall>x \<in> set front. status_code x \<in> TRANSIENT_ERROR_CODES"
    and tr: "status_code r \<in> TRANSIENT_ERROR_CODES"
    using assms fr by auto
  have b: "0 + length front \<le> MAX_RETRIES" using lf by (simp add: MAX_RETRIES_def)
  have ne: "front \<noteq> []" using lf by auto
  have n200: "status_code r \<noteq> 200" and n403: "status_code r \<noteq> 403"
    using tr by (auto simp: TRANSIENT_ERROR_CODES_def)
  have stop: "\<not> (status_code r \<in> TRANSIENT_ERROR_CODES \<and> (3::nat) < MAX_RETRIES)"
    by (simp add: MAX_RETRIES_def)
  from retry_steps[OF tf b, of oid owner repo data cc a d m cursor cf "r # remote" w] lf ne
  show "recursive_loc oid owner repo data cc a d m cursor 0 cf (fails @ remote) w
            = (Raised (RequestFailed ''recursive_loc'' (status_code (last fails))), remote,
               w\<lparr>ledger_file := Some (writelines cc @ writelines data),
                  events := events w @
                     [Fetch owner repo cursor cf, Sleep 2, Fetch owner repo cursor 0, Sleep 4,
                      Fetch owner repo cursor 0, Sleep 8, Fetch owner repo cursor 0]\<rparr>)"
    by (simp add: fr upt_0_3 RETRY_DELAY_BASE_def recursive_loc_fail[OF n200 stop] n403
                  emit_def force_close_file_def)
next
  assume "repo_status page \<noteq> 200"
  then show "loc_query digest oid comment_size force_cache enum_cursor es (page # pages) remote w
            = (Raised (RequestFailed ''loc_query'' (repo_status page)), remote,
               emit (Enumerate enum_cursor) w)"
    by (simp add: Let_def)
qed

text \<open>
  An instance: three failures (502, 503, 504) and then a page; a fourth failure instead of
  the page; an enumeration whose first answer is a 502.
\<close>

theorem transient_failures_retried_witness:
  "list_all (\<lambda>r. status_code r \<in> TRANSIENT_ERROR_CODES)
     [example_failure 502, example_failure 503, example_failure 504]
   \<and> recursive_loc ''me'' ''a'' ''b'' [''k 0 0 0 0''] [''hdr''] 0 0 0 None 0 0
        ([example_failure 502, example_failure 503, example_failure 504]
         @ [example_page 2 False]) \<lparr>ledger_file = Some ''x'', events = []\<rparr>
     = (Returned (Loc 6 2 2), [],
        \<lparr>ledger_file = Some ''x'',
         events = [Fetch ''a'' ''b'' None 0, Sleep 2, Fetch ''a'' ''b'' None 0, Sleep 4,
                   Fetch ''a'' ''b'' None 0, Sleep 8, Fetch ''a'' ''b'' None 0]\<rparr>)
   \<and> list_all (\<lambda>r. status_code r \<in> TRANSIENT_ERROR_CODES)
     [example_failure 502, example_failure 503, example_failure 504, example_failure 502]
   \<and> recursive_loc ''me'' ''a'' ''b'' [''k 0 0 0 0''] [''hdr''] 0 0 0 None 0 0
        ([example_failure 502, example_failure 503, example_failure 504, example_failure 502]
         @ [example_page 2 False]) \<lparr>ledger_file = Some ''x'', events = []\<rparr>
     = (Raised (RequestFailed ''recursive_loc'' 502), [example_page 2 False],
        \<lparr>ledger_file = Some ''hdrk 0 0 0 0'',
         events = [Fetch ''a'' ''b'' None 0, Sleep 2, Fetch ''a'' ''b'' None 0, Sleep 4,
                   Fetch ''a'' ''b'' None 0, Sleep 8, Fetch ''a'' ''b'' None 0]\<rparr>)
   \<and> loc_query hex_digest ''me'' 7 False None []
        [\<lparr>repo_status = 502, repo_edges = [], repo_hasNextPage = False, repo_endCursor = None\<rparr>,
         \<lparr>repo_status = 200, repo_edges = [], repo_hasNextPage = False, repo_endCursor = None\<rparr>]
        [] \<lparr>ledger_file = None, events = []\<rparr>
     = (Raised (RequestFailed ''loc_query'' 502), [],
        \<lparr>ledger_file = None, events = [Enumerate None]\<rparr>)"
proof -
  let ?f3 = "[example_failure 502, example_failure 503, example_failure 504]"
  let ?f4 = "[example_failure 502, example_failure 503, example_failure 504, example_failure 502]"
  have t3: "\<forall>r \<in> set ?f3. status_code r \<in> TRANSIENT_ERROR_CODES"
    by (simp add: example_failure_def TRANSIENT_ERROR_CODES_def)
  have t4: "\<forall>r \<in> set ?f4. status_code r \<in> TRANSIENT_ERROR_CODES"
    by (simp add: example_failure_def TRANSIENT_ERROR_CODES_def)
  have c: "count_own ''me'' (edges \<lparr>edges = replicate 2 example_commit, hasNextPage = False,
                      endCursor = Some ''c''\<rparr>) (0, 0, 0) = Some (6, 2, 2)"
    by (simp add: example_commit_def eval_nat_numeral)
  note a = transient_failures_retried[OF t3, where oid="''me''" and owner="''a''" and repo="''b''"
      and data="[''k 0 0 0 0'']" and cc="[''hdr'']" and a=0 and d=0 and m=0 and cursor=None
      and cf=0 and remote="[]" and w="\<lparr>ledger_file = Some ''x'', events = []\<rparr>"
      and ok="example_page 2 False"
      and h="\<lparr>edges = replicate 2 example_commit, hasNextPage = False, endCursor = Some ''c''\<rparr>"]
  note b = transient_failures_retried[OF t4, where oid="''me''" and owner="''a''" and repo="''b''"
      and data="[''k 0 0 0 0'']" and cc="[''hdr'']" and a=0 and d=0 and m=0 and cursor=None
      and cf=0 and remote="[example_page 2 False]"
      and w="\<lparr>ledger_file = Some ''x'', events = []\<rparr>"]
  note q0 = transient_failures_retried[OF t4, where remote="[]"
      and w="\<lparr>ledger_file = None, events = []\<rparr>"
      and page="\<lparr>repo_status = 502, repo_edges = [], repo_hasNextPage = False, repo_endCursor = None\<rparr>"
      and digest=hex_digest and oid="''me''" and comment_size=7 and force_cache=False
      and enum_cursor=None and es="[]"
      and pages="[\<lparr>repo_status = 200, repo_edges = [], repo_hasNextPage = False, repo_endCursor = None\<rparr>]"]
  have r3: "recursive_loc ''me'' ''a'' ''b'' [''k 0 0 0 0''] [''hdr''] 0 0 0 None 0 0
        (?f3 @ [example_page 2 False]) \<lparr>ledger_file = Some ''x'', events = []\<rparr>
     = (Returned (Loc 6 2 2), [],
        \<lparr>ledger_file = Some ''x'',
         events = [Fetch ''a'' ''b'' None 0, Sleep 2, Fetch ''a'' ''b'' None 0, Sleep 4,
                   Fetch ''a'' ''b'' None 0, Sleep 8, Fetch ''a'' ''b'' None 0]\<rparr>)"
    using a c by (simp add: example_page_def loc_counter_last)
  have r4: "recursive_loc ''me'' ''a'' ''b'' [''k 0 0 0 0''] [''hdr''] 0 0 0 None 0 0
        (?f4 @ [example_page 2 False]) \<lparr>ledger_file = Some ''x'', events = []\<rparr>
     = (Raised (RequestFailed ''recursive_loc'' 502), [example_page 2 False],
        \<lparr>ledger_file = Some ''hdrk 0 0 0 0'',
         events = [Fetch ''a'' ''b'' None 0, Sleep 2, Fetch ''a'' ''b'' None 0, Sleep 4,
                   Fetch ''a'' ''b'' None 0, Sleep 8, Fetch ''a'' ''b'' None 0]\<rparr>)"
    using b by (simp add: example_failure_def writelines_def)
  have q: "loc_query hex_digest ''me'' 7 False None []
        [\<lparr>repo_status = 502, repo_edges = [], repo_hasNextPage = False, repo_endCursor = None\<rparr>,
         \<lparr>repo_status = 200, repo_edges = [], repo_hasNextPage = False, repo_endCursor = None\<rparr>]
        [] \<lparr>ledger_file = None, events = []\<rparr>
     = (Raised (RequestFailed ''loc_query'' 502), [],
        \<lparr>ledger_file = None, events = [Enumerate None]\<rparr>)"
    using q0 by (simp add: emit_def)
  show ?thesis using t3 t4 r3 r4 q unfolding list_all_iff by blast
qed

text \<open>
  C10. The request sent again after a transient failure has the same cursor and the same
  running totals of additions, deletions and own commits, and its counter of fetched commits
  is 0: the events show the two requests with the same cursor, the second with counter 0,
  and a page that follows counts from 0, whatever had been fetched before.
\<close>

theorem retry_restarts_commit_counter:
  assumes "status_code request \<in> TRANSIENT_ERROR_CODES" and "retry_count < MAX_RETRIES"
  shows "recursive_loc oid owner repo data cc a d m cursor retry_count commits_fetched
           (request # remote) w
         = recursive_loc oid owner repo data cc a d m cursor (retry_count + 1) 0 remote
             (emit (Sleep (RETRY_DELAY_BASE * 2 ^ retry_count))
                (emit (Fetch owner repo cursor commits_fetched) w))
       \<and> (\<exists>rest. events (snd (snd (recursive_loc oid owner repo data cc a d m cursor
                                     retry_count commits_fetched (request # remote) w)))
                   = events w @ [Fetch owner repo cursor commits_fetched,
                                 Sleep (RETRY_DELAY_BASE * 2 ^ retry_count),
                                 Fetch owner repo cursor 0] @ rest)
       \<and> (\<forall>page h a' d' m' remote'.
             remote = page # remote' \<and> status_code page = 200 \<and> body page = Commits h
             \<and> count_own oid (edges h) (a, d, m) = Some (a', d', m')
             \<and> edges h \<noteq> [] \<and> hasNextPage h \<and> length (edges h) < MAX_COMMITS_PER_REPO
             \<longrightarrow> recursive_loc oid owner repo data cc a d m cursor retry_count commits_fetched
                   (request # remote) w
                 = recursive_loc oid owner repo data cc a' d' m' (endCursor h) 0
                     (length (edges h)) remote'
                     (emit (Fetch owner repo cursor 0)
                        (emit (Sleep (RETRY_DELAY_BASE * 2 ^ retry_count))
                           (emit (Fetch owner repo cursor commits_fetched) w))))"
proof (intro conjI allI impI)
  show eq: "recursive_loc oid owner repo data cc a d m cursor retry_count commits_fetched
           (request # remote) w
         = recursive_loc oid owner repo data cc a d m cursor (retry_count + 1) 0 remote
             (emit (Sleep (RETRY_DELAY_BASE * 2 ^ retry_count))
                (emit (Fetch owner repo cursor commits_fetched) w))"
    by (rule recursive_loc_retry[OF assms])
  from events_grow(1)[of oid owner repo data cc a d m cursor "retry_count + 1" 0 remote
      "emit (Sleep (RETRY_DELAY_BASE * 2 ^ retry_count))
                (emit (Fetch owner repo cursor commits_fetched) w)"]
  show "\<exists>rest. events (snd (snd (recursive_loc oid owner repo data cc a d m cursor
                                     retry_count commits_fetched (request # remote) w)))
                   = events w @ [Fetch owner repo cursor commits_fetched,
                                 Sleep (RETRY_DELAY_BASE * 2 ^ retry_count),
                                 Fetch owner repo cursor 0] @ rest"
    by (simp add: eq emit_def)
next
  fix page h a' d' m' remote'
  assume h: "remote = page # remote' \<and> status_code page = 200 \<and> body page = Commits h
             \<and> count_own oid (edges h) (a, d, m) = Some (a', d', m')
             \<and> edges h \<noteq> [] \<and> hasNextPage h \<and> length (edges h) < MAX_COMMITS_PER_REPO"
  then show "recursive_loc oid owner repo data cc a d m cursor retry_count commits_fetched
                   (request # remote) w
                 = recursive_loc oid owner repo data cc a' d' m' (endCursor h) 0
                     (length (edges h)) remote'
                     (emit (Fetch owner repo cursor 0)
                        (emit (Sleep (RETRY_DELAY_BASE * 2 ^ retry_count))
                           (emit (Fetch owner repo cursor commits_fetched) w)))"
    by (simp add: recursive_loc_retry[OF assms] recursive_loc_page loc_counter_next)
qed

text \<open>
  With 4990 commits fetched, a page of 20 commits that follows a 502 does not end the
  fetch: the counter is 20 after it, and a third request is made.
\<close>

theorem retry_restarts_commit_counter_witness:
  "status_code (example_failure 502) \<in> TRANSIENT_ERROR_CODES \<and> (0::nat) < MAX_RETRIES
   \<and> recursive_loc ''me'' ''a'' ''b'' [] [] 0 0 0 (Some ''k'') 0 4990
        [example_failure 502, example_page 20 True, example_page 1 False]
        \<lparr>ledger_file = None, events = []\<rparr>
     = (Returned (Loc 63 21 21), [],
        \<lparr>ledger_file = None,
         events = [Fetch ''a'' ''b'' (Some ''k'') 4990, Sleep 2, Fetch ''a'' ''b'' (Some ''k'') 0,
                   Fetch ''a'' ''b'' (Some ''c'') 20]\<rparr>)"
proof -
  have t: "status_code (example_failure 502) \<in> TRANSIENT_ERROR_CODES"
    by (simp add: example_failure_def TRANSIENT_ERROR_CODES_def)
  have r: "(0::nat) < MAX_RETRIES" by (simp add: MAX_RETRIES_def)
  let ?h = "\<lparr>edges = replicate 20 example_commit, hasNextPage = True, endCursor = Some ''c''\<rparr>"
  have c: "count_own ''me'' (edges ?h) (0, 0, 0) = Some (60, 20, 20)"
    by (simp add: count_own_replicate example_commit_def)
  have c1: "count_own ''me'' (replicate 1 example_commit) (60, 20, 20) = Some (63, 21, 21)"
    by (simp add: count_own_replicate example_commit_def del: replicate.simps)
  note T = retry_restarts_commit_counter[OF t r, where oid="''me''" and owner="''a''" and repo="''b''"
      and data="[]" and cc="[]" and a=0 and d=0 and m=0 and cursor="Some ''k''"
      and commits_fetched=4990
      and remote="[example_page 20 True, example_page 1 False]"
      and w="\<lparr>ledger_file = None, events = []\<rparr>"]
  have prem: "[example_page 20 True, example_page 1 False] = example_page 20 True # [example_page 1 False]
        \<and> status_code (example_page 20 True) = 200 \<and> body (example_page 20 True) = Commits ?h
        \<and> count_own ''me'' (edges ?h) (0, 0, 0) = Some (60, 20, 20)
        \<and> edges ?h \<noteq> [] \<and> hasNextPage ?h \<and> length (edges ?h) < MAX_COMMITS_PER_REPO"
    using c by (simp add: example_page_def MAX_COMMITS_PER_REPO_def)
  from T[THEN conjunct2, THEN conjunct2, rule_format, OF prem]
  have "recursive_loc ''me'' ''a'' ''b'' [] [] 0 0 0 (Some ''k'') 0 4990
        [example_failure 502, example_page 20 True, example_page 1 False]
        \<lparr>ledger_file = None, events = []\<rparr>
       = recursive_loc ''me'' ''a'' ''b'' [] [] 60 20 20 (Some ''c'') 0 20
           [example_page 1 False]
           (emit (Fetch ''a'' ''b'' (Some ''k'') 0)
              (emit (Sleep (RETRY_DELAY_BASE * 2 ^ 0))
                 (emit (Fetch ''a'' ''b'' (Some ''k'') 4990) \<lparr>ledger_file = None, events = []\<rparr>)))"
    by simp
  also have "\<dots> = (Returned (Loc 63 21 21), [],
        \<lparr>ledger_file = None,
         events = [Fetch ''a'' ''b'' (Some ''k'') 4990, Sleep 2, Fetch ''a'' ''b'' (Some ''k'') 0,
                   Fetch ''a'' ''b'' (Some ''c'') 20]\<rparr>)"
    using c1 by (simp add: example_page_def recursive_loc_page loc_counter_last emit_def
        RETRY_DELAY_BASE_def del: replicate.simps)
  finally show ?thesis using t r by simp
qed

section \<open>Failure of a request\<close>

lemma reducer_raise_flushed:
  "recursive_loc oid owner repo data cc a d m cursor rc cf remote w = (Raised x, remote', w')
     \<Longrightarrow> x \<noteq> TypeError
     \<Longrightarrow> remote_failure x \<and> ledger_file w' = Some (writelines cc @ writelines data)"
  "loc_counter_one_repo oid owner repo data cc h a d m cf remote w = (Raised x, remote', w')
     \<Longrightarrow> x \<noteq> TypeError
     \<Longrightarrow> remote_failure x \<and> ledger_file w' = Some (writelines cc @ writelines data)"
proof (induction oid owner repo data cc a d m cursor rc cf remote w
        and oid owner repo data cc h a d m cf remote w
        rule: recursive_loc_loc_counter_one_repo.induct)
  case (1 oid owner repo data cc a d m cursor rc cf w)
  then show ?case by (simp add: recursive_loc_Nil)
next
  case (2 oid owner repo data cc a d m cursor rc cf request remote w)
  show ?case
  proof (cases "status_code request = 200")
    case True
    show ?thesis
    proof (cases "body request")
      case NoRepository
      with True "2.prems" show ?thesis by (simp add: recursive_loc_no_repo)
    next
      case EmptyBranch
      with True "2.prems" show ?thesis by (simp add: recursive_loc_empty)
    next
      case (Commits h)
      with True "2.prems" "2.IH"(1)[OF refl True Commits] show ?thesis
        by (simp add: recursive_loc_page)
    qed
  next
    case False
    show ?thesis
    proof (cases "status_code request \<in> TRANSIENT_ERROR_CODES \<and> rc < MAX_RETRIES")
      case True
      with "2.prems" "2.IH"(2)[OF refl False True] show ?thesis
        by (simp add: recursive_loc_retry)
    next
      case F2: False
      from "2.prems" show ?thesis
        by (auto simp add: recursive_loc_fail[OF False F2] force_close_file_def emit_def
                 split: if_splits)
    qed
  qed
next
  case (3 oid owner repo data cc h a d m cf remote w)
  show ?case
  proof (cases "count_own oid (edges h) (a, d, m)")
    case None
    with "3.prems" show ?thesis by (simp add: loc_counter_type_error)
  next
    case (Some t)
    obtain a' d' m' where t: "t = (a', d', m')" by (cases t) auto
    show ?thesis
    proof (cases "edges h = [] \<or> \<not> hasNextPage h")
      case True
      with Some t "3.prems" show ?thesis by (simp add: loc_counter_last)
    next
      case False
      show ?thesis
      proof (cases "cf + length (edges h) \<ge> MAX_COMMITS_PER_REPO")
        case True
        with False Some t "3.prems" show ?thesis by (simp add: loc_counter_ceiling)
      next
        case F3: False
        with "3.IH"[OF refl Some t[symmetric] refl False] False Some t "3.prems"
        show ?thesis by (simp add: loc_counter_next)
      qed
    qed
  qed
qed

lemma refresh_line_raise_flushed:
  assumes "refresh_line oid cc index e repo_hash commit_count data remote w = (Raised x, remote', w')"
      and "remote_failure x"
  shows "ledger_file w' = Some (writelines cc @ writelines data)"
proof -
  from assms(2) have nx: "x \<noteq> TypeError" "x \<noteq> ValueError" by auto
  from assms(1) nx show ?thesis
    by (auto simp: refresh_line_def split: option.splits if_splits list.splits prod.splits
                   outcome.splits loc.splits
             dest: reducer_raise_flushed(1))
qed

lemma refresh_line_returned:
  assumes "refresh_line oid cc index e repo_hash commit_count data remote w = (Returned data', remote', w')"
  shows "data' = data \<or> (\<exists>l. data' = data[index := l])"
  using assms
  by (auto simp: refresh_line_def split: option.splits if_splits list.splits prod.splits
                   outcome.splits loc.splits)

lemma cache_step_returned:
  assumes "cache_step digest oid cc index e data remote w = (Returned data', remote', w')"
  shows "data' = data \<or> (\<exists>l. data' = data[index := l])"
  using assms
  by (auto simp: cache_step_def split: if_splits list.splits prod.splits outcome.splits exn.splits
           dest: refresh_line_returned)

lemma cache_step_raise_flushed:
  assumes "cache_step digest oid cc index e data remote w = (Raised x, remote', w')"
      and "remote_failure x"
  shows "ledger_file w' = Some (writelines cc @ writelines data)"
  using assms
  by (auto simp: cache_step_def split: if_splits list.splits prod.splits outcome.splits exn.splits
           dest: refresh_line_raise_flushed)

lemma cache_step_length:
  "cache_step digest oid cc index e data remote w = (Returned data', remote', w')
   \<Longrightarrow> length data' = length data"
  by (auto dest: cache_step_returned)

lemma cache_step_other_lines:
  "cache_step digest oid cc index e data remote w = (Returned data', remote', w')
   \<Longrightarrow> j \<noteq> index \<Longrightarrow> data' ! j = data ! j"
  by (auto dest: cache_step_returned)

lemma cache_loop_failure_point:
  assumes "cache_loop digest oid cc i es data remote w = (Raised x, remote', w')"
  shows "\<exists>k data_k remote_k w_k.
           k < length es
           \<and> cache_loop digest oid cc i (take k es) data remote w = (Returned data_k, remote_k, w_k)
           \<and> cache_step digest oid cc (i + k) (es ! k) data_k remote_k w_k = (Raised x, remote', w')
           \<and> length data_k = length data
           \<and> (\<forall>j. i + k \<le> j \<longrightarrow> data_k ! j = data ! j)"
  using assms
proof (induction es arbitrary: i data remote w)
  case Nil
  then show ?case by simp
next
  case (Cons e es)
  obtain out r1 w1 where st: "cache_step digest oid cc i e data remote w = (out, r1, w1)"
    by (cases "cache_step digest oid cc i e data remote w") auto
  show ?case
  proof (cases out)
    case (Returned data1)
    with st Cons.prems have "cache_loop digest oid cc (i + 1) es data1 r1 w1 = (Raised x, remote', w')"
      by simp
    from Cons.IH[OF this] obtain k data_k remote_k w_k where
      k: "k < length es"
      and lp: "cache_loop digest oid cc (i + 1) (take k es) data1 r1 w1 = (Returned data_k, remote_k, w_k)"
      and sp: "cache_step digest oid cc (i + 1 + k) (es ! k) data_k remote_k w_k = (Raised x, remote', w')"
      and ln: "length data_k = length data1"
      and un: "\<forall>j. i + 1 + k \<le> j \<longrightarrow> data_k ! j = data1 ! j"
      by blast
    have l1: "length data1 = length data"
      using st Returned by (auto dest: cache_step_length)
    have o1: "\<And>j. j \<noteq> i \<Longrightarrow> data1 ! j = data ! j"
      using st Returned by (auto dest: cache_step_other_lines)
    have "Suc k < length (e # es)" using k by simp
    moreover have "cache_loop digest oid cc i (take (Suc k) (e # es)) data remote w
                   = (Returned data_k, remote_k, w_k)"
      using st Returned lp by simp
    moreover have "cache_step digest oid cc (i + Suc k) ((e # es) ! Suc k) data_k remote_k w_k
                   = (Raised x, remote', w')"
      using sp by simp
    moreover have "length data_k = length data" using ln l1 by simp
    moreover have "\<forall>j. i + Suc k \<le> j \<longrightarrow> data_k ! j = data ! j"
      using un o1 by simp
    ultimately show ?thesis by blast
  next
    case (Raised y)
    with st Cons.prems have "cache_step digest oid cc i e data remote w = (Raised x, remote', w')"
      by simp
    then have "0 < length (e # es)
        \<and> cache_loop digest oid cc i (take 0 (e # es)) data remote w = (Returned data, remote, w)
        \<and> cache_step digest oid cc (i + 0) ((e # es) ! 0) data remote w = (Raised x, remote', w')
        \<and> length data = length data
        \<and> (\<forall>j. i + 0 \<le> j \<longrightarrow> data ! j = data ! j)"
      by simp
    then show ?thesis by blast
  next
    case Unfinished
    with st Cons.prems show ?thesis by simp
  qed
qed

text \<open>
  C3, as stated, fails for an answer of status 200 that holds no repository: the reducer
  raises \<open>TypeError\<close> and leaves the file as it is; \<open>cache_builder\<close> catches the exception,
  zeroes the line and goes on to the next repository, and the run returns.
\<close>

theorem unusable_answer_not_flushed:
  "recursive_loc ''me'' ''a'' ''b'' example_ledger [''header'' @ [newline]] 0 0 0 None 0 0
       [\<lparr>status_code = 200, body = NoRepository\<rparr>]
       \<lparr>ledger_file = Some ''old'', events = []\<rparr>
     = (Raised TypeError, [],
        \<lparr>ledger_file = Some ''old'', events = [Fetch ''a'' ''b'' None 0]\<rparr>)
   \<and> cache_builder hex_digest ''me'' example_repos 1 False 0 0
        [\<lparr>status_code = 200, body = NoRepository\<rparr>, example_page 1 False] example_world
     = (Returned (3, 1, 2, True), [],
        \<lparr>ledger_file = Some (''header'' @ [newline] @ ''612f62 0 0 0 0'' @ [newline]
                             @ ''612f63 7 1 3 1'' @ [newline]),
         events = [Fetch ''a'' ''b'' None 0, Fetch ''a'' ''c'' None 0]\<rparr>)"
  by code_simp

text \<open>
  C3, amended. A request of the reducer that fails with a status that is not retried (403, any other
  status that is not transient, or a transient one after three retries) writes the ledger,
  comment block and data lines as they are at that moment, and raises. Every such exception
  that leaves the reducer or the loop of \<open>cache_builder\<close> leaves the file in that state:
  the lines of the repositories before the failing one are as the loop had left them, the
  lines from the failing one on are as they were, and \<open>cache_builder\<close> raises the same
  exception without writing again.
\<close>

theorem failure_keeps_reconciled_lines:
  assumes "remote_failure x"
  shows "(status_code request \<noteq> 200
           \<and> \<not> (status_code request \<in> TRANSIENT_ERROR_CODES \<and> retry_count < MAX_RETRIES)
           \<longrightarrow> (\<exists>y. remote_failure y
                 \<and> recursive_loc oid owner repo data cc a d m cursor retry_count commits_fetched
                     (request # remote) w
                   = (Raised y, remote,
                      w\<lparr>ledger_file := Some (writelines cc @ writelines data),
                         events := events w @ [Fetch owner repo cursor commits_fetched]\<rparr>)))
       \<and> (recursive_loc oid owner repo data cc a d m cursor retry_count commits_fetched remote w
            = (Raised x, remote', w')
           \<longrightarrow> ledger_file w' = Some (writelines cc @ writelines data))
       \<and> (cache_loop digest oid cc i es data remote w = (Raised x, remote', w')
           \<longrightarrow> (\<exists>k data_k remote_k w_k.
                  k < length es
                  \<and> cache_loop digest oid cc i (take k es) data remote w
                      = (Returned data_k, remote_k, w_k)
                  \<and> cache_step digest oid cc (i + k) (es ! k) data_k remote_k w_k
                      = (Raised x, remote', w')
                  \<and> length data_k = length data
                  \<and> (\<forall>j. i + k \<le> j \<longrightarrow> data_k ! j = data ! j)
                  \<and> ledger_file w' = Some (writelines cc @ writelines data_k)))
       \<and> (cache_loop digest oid cc 0 es data remote w = (Raised x, remote', w')
           \<and> cache_prepare digest es comment_size force_cache w0 = (Returned (cached, cc, data), w)
           \<longrightarrow> cache_builder digest oid es comment_size force_cache loc_add loc_del remote w0
                 = (Raised x, remote', w'))"
proof (intro conjI impI)
  assume f: "status_code request \<noteq> 200
           \<and> \<not> (status_code request \<in> TRANSIENT_ERROR_CODES \<and> retry_count < MAX_RETRIES)"
  then have "recursive_loc oid owner repo data cc a d m cursor retry_count commits_fetched
                     (request # remote) w
         = (Raised (if status_code request = 403 then RateLimited
                    else RequestFailed ''recursive_loc'' (status_code request)),
            remote,
            force_close_file data cc (emit (Fetch owner repo cursor commits_fetched) w))"
    by (intro recursive_loc_fail) auto
  moreover have "remote_failure (if status_code request = 403 then RateLimited
                    else RequestFailed ''recursive_loc'' (status_code request))"
    by simp
  ultimately show "\<exists>y. remote_failure y
                 \<and> recursive_loc oid owner repo data cc a d m cursor retry_count commits_fetched
                     (request # remote) w
                   = (Raised y, remote,
                      w\<lparr>ledger_file := Some (writelines cc @ writelines data),
                         events := events w @ [Fetch owner repo cursor commits_fetched]\<rparr>)"
    by (auto simp: force_close_file_def emit_def)
next
  assume "recursive_loc oid owner repo data cc a d m cursor retry_count commits_fetched remote w
            = (Raised x, remote', w')"
  moreover from assms have "x \<noteq> TypeError" by auto
  ultimately show "ledger_file w' = Some (writelines cc @ writelines data)"
    using reducer_raise_flushed(1) by blast
next
  assume "cache_loop digest oid cc i es data remote w = (Raised x, remote', w')"
  from cache_loop_failure_point[OF this] obtain k data_k remote_k w_k where
    *: "k < length es"
       "cache_loop digest oid cc i (take k es) data remote w = (Returned data_k, remote_k, w_k)"
       "cache_step digest oid cc (i + k) (es ! k) data_k remote_k w_k = (Raised x, remote', w')"
       "length data_k = length data"
       "\<forall>j. i + k \<le> j \<longrightarrow> data_k ! j = data ! j"
    by blast
  from cache_step_raise_flushed[OF *(3) assms]
  have "ledger_file w' = Some (writelines cc @ writelines data_k)" .
  with * show "\<exists>k data_k remote_k w_k.
                  k < length es
                  \<and> cache_loop digest oid cc i (take k es) data remote w
                      = (Returned data_k, remote_k, w_k)
                  \<and> cache_step digest oid cc (i + k) (es ! k) data_k remote_k w_k
                      = (Raised x, remote', w')
                  \<and> length data_k = length data
                  \<and> (\<forall>j. i + k \<le> j \<longrightarrow> data_k ! j = data ! j)
                  \<and> ledger_file w' = Some (writelines cc @ writelines data_k)"
    by blast
next
  assume "cache_loop digest oid cc 0 es data remote w = (Raised x, remote', w')
           \<and> cache_prepare digest es comment_size force_cache w0 = (Returned (cached, cc, data), w)"
  then show "cache_builder digest oid es comment_size force_cache loc_add loc_del remote w0
                 = (Raised x, remote', w')"
    by (simp add: cache_builder_def)
qed

lemma ex_prepare:
  "cache_prepare hex_digest example_repos 1 False example_world
   = (Returned (True, [''header'' @ [newline]], example_ledger), example_world)"
  by code_simp

lemma ex_loop:
  "cache_loop hex_digest ''me'' [''header'' @ [newline]] 0 example_repos example_ledger
     [example_page 2 False, example_failure 403] example_world
   = (Raised RateLimited, [],
      \<lparr>ledger_file = Some (writelines ([''header'' @ [newline]]
                             @ [''612f62 5 2 6 2'' @ [newline], ''612f63 4 1 1 1'' @ [newline]])),
       events = [Fetch ''a'' ''b'' None 0, Fetch ''a'' ''c'' None 0]\<rparr>)"
  by code_simp

text \<open>
  An instance: the first repository is refreshed, the request for the second meets a 403;
  the file then holds the new line of the first and the old line of the second.
\<close>

theorem failure_keeps_reconciled_lines_witness:
  "remote_failure RateLimited
   \<and> cache_builder hex_digest ''me'' example_repos 1 False 0 0
        [example_page 2 False, example_failure 403] example_world
     = (Raised RateLimited, [],
        \<lparr>ledger_file = Some (writelines ([''header'' @ [newline]]
                             @ [''612f62 5 2 6 2'' @ [newline], ''612f63 4 1 1 1'' @ [newline]])),
         events = [Fetch ''a'' ''b'' None 0, Fetch ''a'' ''c'' None 0]\<rparr>)"
proof -
  have f: "remote_failure RateLimited" by simp
  note T = failure_keeps_reconciled_lines[OF f, where digest=hex_digest and oid="''me''"
      and es=example_repos and cc="[''header'' @ [newline]]" and data=example_ledger
      and remote="[example_page 2 False, example_failure 403]" and w=example_world
      and w0=example_world and comment_size=1 and force_cache=False and cached=True
      and remote'="[]" and loc_add=0 and loc_del=0
      and w'="\<lparr>ledger_file = Some (writelines ([''header'' @ [newline]]
                             @ [''612f62 5 2 6 2'' @ [newline], ''612f63 4 1 1 1'' @ [newline]])),
         events = [Fetch ''a'' ''b'' None 0, Fetch ''a'' ''c'' None 0]\<rparr>"]
  from T[THEN conjunct2, THEN conjunct2, THEN conjunct2, rule_format, OF conjI, OF ex_loop ex_prepare]
  show ?thesis using f by simp
qed

section \<open>Lines and tokens\<close>

lemma readlines_line:
  "newline \<notin> set b \<Longrightarrow> readlines (b @ newline # s) = (b @ [newline]) # readlines s"
  by (induction b) auto

lemma terminated_split:
  "terminated l \<Longrightarrow> \<exists>b. l = b @ [newline] \<and> newline \<notin> set b"
  unfolding terminated_def by (metis append_butlast_last_id)

lemma readlines_terminated:
  "terminated l \<Longrightarrow> readlines (l @ s) = l # readlines s"
  using terminated_split[of l] readlines_line by fastforce

lemma readlines_concat:
  "\<forall>l \<in> set ls. terminated l \<Longrightarrow> readlines (concat ls @ s) = ls @ readlines s"
  by (induction ls) (simp_all add: readlines_terminated)

lemma readlines_nonempty: "[] \<notin> set (readlines s)"
  by (induction s) (auto split: list.splits)

lemma readlines_inner: "l \<in> set (readlines s) \<Longrightarrow> newline \<notin> set (butlast l)"
proof (induction s arbitrary: l)
  case Nil
  then show ?case by simp
next
  case (Cons c s)
  show ?case
  proof (cases "c = newline")
    case True
    with Cons show ?thesis by auto
  next
    case False
    show ?thesis
    proof (cases "readlines s")
      case Nil
      with False Cons.prems show ?thesis by auto
    next
      case (Cons l' ls)
      have ne: "l' \<noteq> []" using readlines_nonempty[of s] Cons by auto
      have "newline \<notin> set (butlast l')" using Cons.IH[of l'] Cons by simp
      with False Cons Cons.prems Cons.IH ne show ?thesis by auto
    qed
  qed
qed

lemma concat_readlines: "concat (readlines s) = s"
  by (induction s) (auto split: list.splits)

lemma space_newline: "is_space newline"
  by (simp add: is_space_def newline_def)

lemma split_aux_token:
  "list_all (\<lambda>c. \<not> is_space c) t \<Longrightarrow> split_aux tok (t @ s) = split_aux (tok @ t) s"
  by (induction t arbitrary: tok) simp_all

lemma split_ws_token_space:
  assumes "t \<noteq> []" and "list_all (\<lambda>c. \<not> is_space c) t" and "is_space c"
  shows "split_ws (t @ c # s) = t # split_ws s"
  using assms by (simp add: split_ws_def split_aux_token)

lemma split_ws_zero_line:
  assumes "t \<noteq> []" and "list_all (\<lambda>c. \<not> is_space c) t"
  shows "split_ws (t @ zero_fields) = [t, ''0'', ''0'', ''0'', ''0'']"
proof -
  have "split_ws (t @ CHR '' '' # (''0 0 0 0'' @ [newline])) = t # split_ws (''0 0 0 0'' @ [newline])"
    by (rule split_ws_token_space[OF assms]) (simp add: is_space_def)
  moreover have "split_ws (''0 0 0 0'' @ [newline]) = [''0'', ''0'', ''0'', ''0'']"
    by (simp add: split_ws_def is_space_def newline_def)
  ultimately show ?thesis by (simp add: zero_fields_def)
qed

lemma zero_line_terminated:
  assumes "list_all (\<lambda>c. \<not> is_space c) t"
  shows "terminated (t @ zero_fields)"
proof -
  have "newline \<notin> set t" using assms space_newline by (auto simp: list_all_iff)
  then show ?thesis by (simp add: terminated_def butlast_append newline_def zero_fields_def)
qed

section \<open>Rebuilding the ledger\<close>

lemma comment_line_terminated: "terminated comment_line"
  by (simp add: terminated_def comment_line_def newline_def)

lemma read_cache_file:
  "\<exists>s0. ledger_file (snd (read_cache comment_size w)) = Some s0
        \<and> readlines s0 = fst (read_cache comment_size w)
        \<and> snd (read_cache comment_size w) = w\<lparr>ledger_file := Some s0\<rparr>"
proof (cases "ledger_file w")
  case None
  have "readlines (concat (replicate (nat comment_size) comment_line) @ []) =
        replicate (nat comment_size) comment_line @ readlines []"
    by (rule readlines_concat) (simp add: comment_line_terminated)
  with None show ?thesis by (simp add: read_cache_def writelines_def Let_def)
next
  case (Some s)
  then have "w\<lparr>ledger_file := Some s\<rparr> = w" by (cases w) simp
  with Some show ?thesis by (simp add: read_cache_def)
qed

lemma header_terminated:
  assumes "header_ok comment_size (readlines s0)"
  shows "\<forall>l \<in> set (take (nat comment_size) (readlines s0)). terminated l"
proof
  fix l assume l: "l \<in> set (take (nat comment_size) (readlines s0))"
  then have m: "l \<in> set (readlines s0)" by (rule in_set_takeD)
  from assms l have "last l = newline" by (auto simp: header_ok_def list_all_iff)
  moreover from m readlines_nonempty[of s0] have "l \<noteq> []" by auto
  moreover from m have "newline \<notin> set (butlast l)" by (rule readlines_inner)
  ultimately show "terminated l" by (simp add: terminated_def)
qed

lemma zero_lines_terminated:
  assumes "digest_ok digest es"
  shows "\<forall>l \<in> set (map (\<lambda>node. digest (nameWithOwner node) @ zero_fields) es).
           terminated l"
  using assms by (auto simp: digest_ok_def list_all_iff intro!: zero_line_terminated)

lemma flush_cache_lines:
  assumes "ledger_file w = Some s0" and "header_ok comment_size (readlines s0)"
      and "digest_ok digest es"
  shows "\<exists>s1. flush_cache digest es comment_size w = (Returned (), w\<lparr>ledger_file := Some s1\<rparr>)
         \<and> s1 = writelines (take (nat comment_size) (readlines s0))
                @ writelines (map (\<lambda>node. digest (nameWithOwner node) @ zero_fields) es)
         \<and> readlines s1 = take (nat comment_size) (readlines s0)
                @ map (\<lambda>node. digest (nameWithOwner node) @ zero_fields) es"
proof -
  let ?hd = "take (nat comment_size) (readlines s0)"
  let ?zl = "map (\<lambda>node. digest (nameWithOwner node) @ zero_fields) es"
  have nn: "0 \<le> comment_size" using assms(2) by (simp add: header_ok_def)
  have hd: "(if comment_size > 0 then slice_upto (readlines s0) comment_size else []) = ?hd"
    using nn by (auto simp: slice_upto_def)
  have "\<forall>l \<in> set (?hd @ ?zl). terminated l"
    using header_terminated[OF assms(2)] zero_lines_terminated[OF assms(3)] by auto
  from readlines_concat[OF this, of "[]"]
  have "readlines (writelines ?hd @ writelines ?zl) = ?hd @ ?zl"
    by (simp add: writelines_def)
  with assms(1) hd show ?thesis
    by (simp add: flush_cache_def Let_def del: map_map)
qed

text \<open>
  C6, as stated, fails for a ledger that does not hold its comment block. With a file of one
  line and a comment block of three, the rebuild writes that line and the two zeroed lines;
  read again, all three lines are taken as the comment block, no data line is left for the
  two repositories and the loop raises \<open>IndexError\<close> at its first round. With a file whose
  only comment line has no newline, the first zeroed line is glued to it: the comment block
  read back is not the old one and one data line is left for two repositories.
\<close>

theorem short_ledger_rebuild_fails:
  "cache_prepare hex_digest example_repos 3 False
        \<lparr>ledger_file = Some (''header'' @ [newline]), events = []\<rparr>
     = (Returned (False,
                  [''header'' @ [newline], ''612f62 0 0 0 0'' @ [newline],
                   ''612f63 0 0 0 0'' @ [newline]],
                  []),
        \<lparr>ledger_file = Some (''header'' @ [newline] @ ''612f62 0 0 0 0'' @ [newline]
                             @ ''612f63 0 0 0 0'' @ [newline]),
         events = []\<rparr>)
   \<and> cache_builder hex_digest ''me'' example_repos 3 False 0 0 [example_page 2 False]
        \<lparr>ledger_file = Some (''header'' @ [newline]), events = []\<rparr>
     = (Raised IndexError, [example_page 2 False],
        \<lparr>ledger_file = Some (''header'' @ [newline] @ ''612f62 0 0 0 0'' @ [newline]
                             @ ''612f63 0 0 0 0'' @ [newline]),
         events = []\<rparr>)
   \<and> cache_prepare hex_digest example_repos 1 False
        \<lparr>ledger_file = Some ''header'', events = []\<rparr>
     = (Returned (False,
                  [''header612f62 0 0 0 0'' @ [newline]],
                  [''612f63 0 0 0 0'' @ [newline]]),
        \<lparr>ledger_file = Some (''header612f62 0 0 0 0'' @ [newline]
                             @ ''612f63 0 0 0 0'' @ [newline]),
         events = []\<rparr>)"
  by code_simp

text \<open>
  C6, amended. The ledger holds its comment block: \<open>comment_size\<close> lines, each ended by a
  newline (\<open>header_ok\<close>; a missing file is created so), and the digest is a non-empty word
  (\<open>digest_ok\<close>). When the number of data lines differs from the number of enumerated
  repositories, or \<open>force_cache\<close> is set, \<open>cache_builder\<close> rebuilds the ledger before its
  loop starts: \<open>cached\<close> is False, the comment block is the one of the old file, and the
  data lines, in the file and as the loop receives them, are one line per repository in the
  order of the enumeration, the hash of \<open>nameWithOwner\<close> followed by \<open>" 0 0 0 0\n"\<close>. The
  run of \<open>cache_builder\<close> is the loop started on these lines and on the rebuilt file,
  followed by the write of the file and the sums; every zeroed line splits into the hash
  and four fields \<open>0\<close>.
\<close>

theorem rebuild_before_loop:
  assumes "header_ok comment_size (fst (read_cache comment_size w))"
      and "digest_ok digest es"
      and "int (length (fst (read_cache comment_size w))) - comment_size \<noteq> int (length es)
           \<or> force_cache"
  shows "cache_prepare digest es comment_size force_cache w
         = (Returned (False,
                      take (nat comment_size) (fst (read_cache comment_size w)),
                      map (\<lambda>node. digest (nameWithOwner node) @ '' 0 0 0 0'' @ [newline]) es),
            w\<lparr>ledger_file :=
                 Some (writelines (take (nat comment_size) (fst (read_cache comment_size w)))
                       @ writelines (map (\<lambda>node. digest (nameWithOwner node)
                                                   @ '' 0 0 0 0'' @ [newline]) es))\<rparr>)
       \<and> cache_builder digest oid es comment_size force_cache loc_add loc_del remote w
         = (case cache_loop digest oid
                   (take (nat comment_size) (fst (read_cache comment_size w))) 0 es
                   (map (\<lambda>node. digest (nameWithOwner node) @ '' 0 0 0 0'' @ [newline]) es)
                   remote
                   (w\<lparr>ledger_file :=
                        Some (writelines (take (nat comment_size)
                                               (fst (read_cache comment_size w)))
                              @ writelines (map (\<lambda>node. digest (nameWithOwner node)
                                                          @ '' 0 0 0 0'' @ [newline]) es))\<rparr>) of
              (Returned data', remote', w2) \<Rightarrow>
                (case sum_loc data' loc_add loc_del of
                   Returned (la, ld) \<Rightarrow>
                     (Returned (la, ld, la - ld, False), remote',
                      w2\<lparr>ledger_file :=
                           Some (writelines (take (nat comment_size)
                                                  (fst (read_cache comment_size w)))
                                 @ writelines data')\<rparr>)
                 | Raised x \<Rightarrow>
                     (Raised x, remote',
                      w2\<lparr>ledger_file :=
                           Some (writelines (take (nat comment_size)
                                                  (fst (read_cache comment_size w)))
                                 @ writelines data')\<rparr>)
                 | Unfinished \<Rightarrow>
                     (Unfinished, remote',
                      w2\<lparr>ledger_file :=
                           Some (writelines (take (nat comment_size)
                                                  (fst (read_cache comment_size w)))
                                 @ writelines data')\<rparr>))
            | (Raised x, remote', w2) \<Rightarrow> (Raised x, remote', w2)
            | (Unfinished, remote', w2) \<Rightarrow> (Unfinished, remote', w2))
       \<and> list_all (\<lambda>node. split_ws (digest (nameWithOwner node) @ '' 0 0 0 0'' @ [newline])
                           = [digest (nameWithOwner node), ''0'', ''0'', ''0'', ''0'']) es"
proof -
  obtain s0 where s0: "ledger_file (snd (read_cache comment_size w)) = Some s0"
      and r0: "readlines s0 = fst (read_cache comment_size w)"
      and w0: "snd (read_cache comment_size w) = w\<lparr>ledger_file := Some s0\<rparr>"
    using read_cache_file by blast
  let ?lines = "fst (read_cache comment_size w)"
  let ?hd = "take (nat comment_size) ?lines"
  let ?zl = "map (\<lambda>node. digest (nameWithOwner node) @ zero_fields) es"
  have ok: "header_ok comment_size (readlines s0)" using assms(1) r0 by simp
  from flush_cache_lines[OF s0 ok assms(2)] r0 obtain s1 where
    fl: "flush_cache digest es comment_size (snd (read_cache comment_size w))
         = (Returned (), (snd (read_cache comment_size w))\<lparr>ledger_file := Some s1\<rparr>)"
    and s1: "s1 = writelines ?hd @ writelines ?zl"
    and rl: "readlines s1 = ?hd @ ?zl"
    by auto
  have len: "length ?hd = nat comment_size" and nn: "0 \<le> comment_size"
    using assms(1) by (auto simp: header_ok_def)
  have up: "slice_upto (?hd @ ?zl) comment_size = ?hd"
    and fr: "slice_from (?hd @ ?zl) comment_size = ?zl"
    using len nn by (simp_all add: slice_upto_def slice_from_def del: map_map)
  have rc: "read_cache comment_size w = (?lines, snd (read_cache comment_size w))" by simp
  have prep: "cache_prepare digest es comment_size force_cache w
         = (Returned (False, ?hd, ?zl), w\<lparr>ledger_file := Some (writelines ?hd @ writelines ?zl)\<rparr>)"
    unfolding cache_prepare_def
    apply (subst rc)
    using assms(3) fl rl up fr s1 w0
    by (simp del: map_map)
  have run: "cache_builder digest oid es comment_size force_cache loc_add loc_del remote w
         = (case cache_loop digest oid ?hd 0 es ?zl remote
                   (w\<lparr>ledger_file := Some (writelines ?hd @ writelines ?zl)\<rparr>) of
              (Returned data', remote', w2) \<Rightarrow>
                (case sum_loc data' loc_add loc_del of
                   Returned (la, ld) \<Rightarrow>
                     (Returned (la, ld, la - ld, False), remote',
                      w2\<lparr>ledger_file := Some (writelines ?hd @ writelines data')\<rparr>)
                 | Raised x \<Rightarrow>
                     (Raised x, remote',
                      w2\<lparr>ledger_file := Some (writelines ?hd @ writelines data')\<rparr>)
                 | Unfinished \<Rightarrow>
                     (Unfinished, remote',
                      w2\<lparr>ledger_file := Some (writelines ?hd @ writelines data')\<rparr>))
            | (Raised x, remote', w2) \<Rightarrow> (Raised x, remote', w2)
            | (Unfinished, remote', w2) \<Rightarrow> (Unfinished, remote', w2))"
    unfolding cache_builder_def prep
    by (simp add: Let_def split: prod.splits outcome.splits del: map_map)
  have toks: "list_all (\<lambda>node. split_ws (digest (nameWithOwner node) @ zero_fields)
                           = [digest (nameWithOwner node), ''0'', ''0'', ''0'', ''0'']) es"
    using assms(2) by (auto simp: digest_ok_def list_all_iff intro!: split_ws_zero_line)
  from prep run toks show ?thesis unfolding zero_fields_def by blast
qed

text \<open>
  An instance: a third repository, with a null branch, has appeared and the ledger has two
  data lines. All three lines are zeroed, then the loop refreshes the first two.
\<close>

theorem rebuild_before_loop_witness:
  "header_ok 1 (fst (read_cache 1 example_world))
   \<and> digest_ok hex_digest (example_repos @ [example_new_repo])
   \<and> int (length (fst (read_cache 1 example_world))) - 1
       \<noteq> int (length (example_repos @ [example_new_repo]))
   \<and> cache_prepare hex_digest (example_repos @ [example_new_repo]) 1 False example_world
     = (Returned (False, [''header'' @ [newline]],
                  [''612f62 0 0 0 0'' @ [newline], ''612f63 0 0 0 0'' @ [newline],
                   ''612f64 0 0 0 0'' @ [newline]]),
        \<lparr>ledger_file = Some (''header'' @ [newline] @ ''612f62 0 0 0 0'' @ [newline]
                             @ ''612f63 0 0 0 0'' @ [newline] @ ''612f64 0 0 0 0'' @ [newline]),
         events = []\<rparr>)
   \<and> cache_builder hex_digest ''me'' (example_repos @ [example_new_repo]) 1 False 0 0
        [example_page 2 False, example_page 1 False] example_world
     = (Returned (9, 3, 6, False), [],
        \<lparr>ledger_file = Some (''header'' @ [newline] @ ''612f62 5 2 6 2'' @ [newline]
                             @ ''612f63 7 1 3 1'' @ [newline] @ ''612f64 0 0 0 0'' @ [newline]),
         events = [Fetch ''a'' ''b'' None 0, Fetch ''a'' ''c'' None 0]\<rparr>)"
proof -
  have h1: "header_ok 1 (fst (read_cache 1 example_world))" by code_simp
  have h2: "digest_ok hex_digest (example_repos @ [example_new_repo])" by code_simp
  have h3: "int (length (fst (read_cache 1 example_world))) - 1
       \<noteq> int (length (example_repos @ [example_new_repo]))" by code_simp
  note T = rebuild_before_loop[OF h1 h2 disjI1[OF h3], where force_cache=False
      and oid="''me''" and loc_add=0 and loc_del=0
      and remote="[example_page 2 False, example_page 1 False]"]
  note T1 = T[THEN conjunct1]
  note T2 = T[THEN conjunct2, THEN conjunct1]
  have "cache_prepare hex_digest (example_repos @ [example_new_repo]) 1 False example_world
        = (Returned (False, [''header'' @ [newline]],
                  [''612f62 0 0 0 0'' @ [newline], ''612f63 0 0 0 0'' @ [newline],
                   ''612f64 0 0 0 0'' @ [newline]]),
        \<lparr>ledger_file = Some (''header'' @ [newline] @ ''612f62 0 0 0 0'' @ [newline]
                             @ ''612f63 0 0 0 0'' @ [newline] @ ''612f64 0 0 0 0'' @ [newline]),
         events = []\<rparr>)"
    apply (rule trans[OF T1])
    by code_simp
  moreover
  have "cache_builder hex_digest ''me'' (example_repos @ [example_new_repo]) 1 False 0 0
        [example_page 2 False, example_page 1 False] example_world
     = (Returned (9, 3, 6, False), [],
        \<lparr>ledger_file = Some (''header'' @ [newline] @ ''612f62 5 2 6 2'' @ [newline]
                             @ ''612f63 7 1 3 1'' @ [newline] @ ''612f64 0 0 0 0'' @ [newline]),
         events = [Fetch ''a'' ''b'' None 0, Fetch ''a'' ''c'' None 0]\<rparr>)"
    apply (rule trans[OF T2])
    by code_simp
  ultimately show ?thesis using h1 h2 h3 by blast
qed


section \<open>The loop over the repositories\<close>

lemma cache_loop_append:
  "cache_loop digest oid cc i (xs @ ys) data remote w
   = (case cache_loop digest oid cc i xs data remote w of
        (Returned d1, r1, w1) \<Rightarrow> cache_loop digest oid cc (i + length xs) ys d1 r1 w1
      | (Raised x, r1, w1) \<Rightarrow> (Raised x, r1, w1)
      | (Unfinished, r1, w1) \<Rightarrow> (Unfinished, r1, w1))"
proof (induction xs arbitrary: i data remote w)
  case Nil
  then show ?case by simp
next
  case (Cons e xs)
  show ?case
    by (cases "cache_step digest oid cc i e data remote w" rule: prod_cases3)
       (auto simp: Cons.IH split: outcome.splits prod.splits)
qed

lemma cache_loop_frame:
  assumes "cache_loop digest oid cc i es data remote w = (Returned data', remote', w')"
  shows "length data' = length data \<and> (\<forall>j. j < i \<or> i + length es \<le> j \<longrightarrow> data' ! j = data ! j)"
  using assms
proof (induction es arbitrary: i data remote w)
  case Nil
  then show ?case by simp
next
  case (Cons e es)
  obtain out r1 w1 where st: "cache_step digest oid cc i e data remote w = (out, r1, w1)"
    by (cases "cache_step digest oid cc i e data remote w") auto
  with Cons.prems obtain d1 where out: "out = Returned d1"
    by (cases out) auto
  from st out Cons.prems have lp: "cache_loop digest oid cc (i + 1) es d1 r1 w1 = (Returned data', remote', w')"
    by simp
  from Cons.IH[OF lp] have ih: "length data' = length d1"
    "\<forall>j. j < i + 1 \<or> i + 1 + length es \<le> j \<longrightarrow> data' ! j = d1 ! j" by auto
  have l1: "length d1 = length data" and o1: "\<And>j. j \<noteq> i \<Longrightarrow> d1 ! j = data ! j"
    using st out by (auto dest: cache_step_length cache_step_other_lines)
  show ?case using ih l1 o1 by auto
qed

lemma cache_step_empty_branch:
  assumes "totalCount e = None"
  shows "snd (cache_step digest oid cc index e data remote w) = (remote, w)"
    and "index < length data \<Longrightarrow> split_ws (data ! index) = repo_hash # commit_count # rest
         \<Longrightarrow> repo_hash = digest (nameWithOwner e) \<Longrightarrow> py_int commit_count \<noteq> None
         \<Longrightarrow> cache_step digest oid cc index e data remote w
             = (Returned (data[index := digest (nameWithOwner e) @ zero_fields]), remote, w)"
    and "cache_step digest oid cc index e data remote w = (Returned data', remote', w')
         \<Longrightarrow> split_ws (data ! index) = repo_hash # commit_count # rest
         \<Longrightarrow> repo_hash = digest (nameWithOwner e)
         \<Longrightarrow> data' = data[index := digest (nameWithOwner e) @ zero_fields]"
  using assms
  by (auto simp: cache_step_def refresh_line_def split: list.splits option.splits if_splits)

text \<open>
  A loop that returns has run every round: the round at place \<open>k\<close> started on data whose
  line \<open>k\<close> was still the one the loop received, and no later round touched that line.
\<close>

lemma cache_loop_at:
  assumes "cache_loop digest oid cc 0 es data remote w = (Returned data', remote', w')"
      and "k < length es"
  shows "\<exists>d1 r1 w1 d2 r2 w2.
           cache_step digest oid cc k (es ! k) d1 r1 w1 = (Returned d2, r2, w2)
           \<and> length d1 = length data \<and> d1 ! k = data ! k
           \<and> length data' = length data \<and> data' ! k = d2 ! k"
proof -
  let ?e = "es ! k"
  have es: "es = take k es @ (?e # drop (Suc k) es)"
    using id_take_nth_drop[OF assms(2)] by simp
  have lk: "length (take k es) = k" using assms(2) by simp
  obtain o1 r1 w1 where l1: "cache_loop digest oid cc 0 (take k es) data remote w = (o1, r1, w1)"
    by (cases "cache_loop digest oid cc 0 (take k es) data remote w") auto
  from assms(1) have full: "cache_loop digest oid cc 0 (take k es @ (?e # drop (Suc k) es)) data remote w
                     = (Returned data', remote', w')"
    using es by simp
  from full l1 obtain d1 where o1: "o1 = Returned d1"
    by (cases o1) (auto simp: cache_loop_append)
  have "cache_loop digest oid cc 0 (take k es @ (?e # drop (Suc k) es)) data remote w
        = cache_loop digest oid cc (0 + length (take k es)) (?e # drop (Suc k) es) d1 r1 w1"
    unfolding cache_loop_append[of digest oid cc 0 "take k es"] l1 o1 by simp
  with full lk
  have rest: "cache_loop digest oid cc k (?e # drop (Suc k) es) d1 r1 w1 = (Returned data', remote', w')"
    by (simp only: add_0)
  obtain o2 r2 w2 where st: "cache_step digest oid cc k ?e d1 r1 w1 = (o2, r2, w2)"
    by (cases "cache_step digest oid cc k ?e d1 r1 w1") auto
  from rest st obtain d2 where o2: "o2 = Returned d2" by (cases o2) auto
  from rest st o2
  have l3: "cache_loop digest oid cc (k + 1) (drop (Suc k) es) d2 r2 w2 = (Returned data', remote', w')"
    by simp
  from cache_loop_frame[OF l1[unfolded o1]] lk
  have f1: "length d1 = length data" "d1 ! k = data ! k" by auto
  from cache_loop_frame[OF l3] have f3: "data' ! k = d2 ! k" "length data' = length d2" by simp_all
  from cache_step_length[OF st[unfolded o2]] have "length d2 = length d1" .
  with f1 f3 st o2
  have "cache_step digest oid cc k (es ! k) d1 r1 w1 = (Returned d2, r2, w2)
           \<and> length d1 = length data \<and> d1 ! k = data ! k
           \<and> length data' = length data \<and> data' ! k = d2 ! k"
    by simp
  then show ?thesis by blast
qed

text \<open>The sums of \<open>cache_builder\<close> are the sums of the fourth and fifth fields.\<close>

lemma sum_loc_fields:
  "sum_loc ls a d = Returned (a', d') \<Longrightarrow> a' = a + field_sum 3 ls \<and> d' = d + field_sum 4 ls"
proof (induction ls arbitrary: a d)
  case Nil
  then show ?case by (simp add: field_sum_def)
next
  case (Cons l ls)
  from Cons.prems obtain x y where x: "py_int (split_ws l ! 3) = Some x"
    and y: "py_int (split_ws l ! 4) = Some y"
    and r: "sum_loc ls (a + x) (d + y) = Returned (a', d')"
    by (auto simp: Let_def split: if_splits option.splits)
  from Cons.IH[OF r] x y show ?case by (simp add: field_sum_def field_value_def)
qed

lemma field_sum_at:
  "k < length ls \<Longrightarrow>
   field_sum f ls = field_sum f (take k ls) + field_value f (ls ! k) + field_sum f (drop (Suc k) ls)"
proof -
  assume "k < length ls"
  then have "ls = take k ls @ (ls ! k) # drop (Suc k) ls" by (simp add: id_take_nth_drop)
  then have "field_sum f ls = field_sum f (take k ls @ (ls ! k) # drop (Suc k) ls)" by simp
  then show ?thesis by (simp add: field_sum_def)
qed

text \<open>Without a rebuild the loop receives the lines of the file; a mismatched line is skipped.\<close>

lemma cache_prepare_kept:
  assumes "ledger_file w = Some s"
      and "int (length (readlines s)) - comment_size = int (length es)" and "\<not> force_cache"
  shows "cache_prepare digest es comment_size force_cache w
         = (Returned (True, slice_upto (readlines s) comment_size,
                      slice_from (readlines s) comment_size), w)"
  using assms by (simp add: cache_prepare_def read_cache_def)

lemma cache_step_mismatch:
  assumes "k < length data" and "split_ws (data ! k) = repo_hash # commit_count # rest"
      and "repo_hash \<noteq> digest (nameWithOwner e)"
  shows "cache_step digest oid cc k e data remote w = (Returned data, remote, w)"
  using assms by (simp add: cache_step_def)

text \<open>What a run of \<open>cache_builder\<close> that returns went through.\<close>

lemma cache_builder_returned:
  assumes "cache_builder digest oid es comment_size force_cache loc_add loc_del remote w
           = (Returned (la, ld, net, cached), remote1, w1)"
  shows "\<exists>cc data w0 data' w2.
           cache_prepare digest es comment_size force_cache w = (Returned (cached, cc, data), w0)
           \<and> cache_loop digest oid cc 0 es data remote w0 = (Returned data', remote1, w2)
           \<and> sum_loc data' loc_add loc_del = Returned (la, ld) \<and> net = la - ld
           \<and> w1 = w2\<lparr>ledger_file := Some (writelines cc @ writelines data')\<rparr>"
  using assms
  by (auto simp: cache_builder_def Let_def
           split: prod.splits outcome.splits)

text \<open>
  C9, as stated, fails for a line that does not carry the hash of the repository: with one
  repository \<open>a/d\<close> whose branch is null and a ledger whose line carries the hash
  \<open>deadbeef\<close>, the run returns with the line as it was, and its counts 2 and 3 in the
  totals.
\<close>

theorem empty_branch_line_not_zeroed:
  "totalCount example_new_repo = None
   \<and> ''deadbeef'' \<noteq> hex_digest (nameWithOwner example_new_repo)
   \<and> cache_builder hex_digest ''me'' [example_new_repo] 1 False 0 0 []
        \<lparr>ledger_file = Some (''header'' @ [newline] @ ''deadbeef 9 1 2 3'' @ [newline]),
         events = []\<rparr>
     = (Returned (2, 3, - 1, True), [],
        \<lparr>ledger_file = Some (''header'' @ [newline] @ ''deadbeef 9 1 2 3'' @ [newline]),
         events = []\<rparr>)"
  by code_simp

text \<open>
  C9, amended. For a repository whose \<open>defaultBranchRef\<close> is null the round of the loop
  sends no request and leaves the remote and the world as they are, whatever the line holds.
  When the line at the place of the repository carries the hash of the repository and a
  count that \<open>int\<close> reads, the round writes the hash followed by \<open>" 0 0 0 0\n"\<close>; and in
  every run of \<open>cache_builder\<close> that returns, the line of such a repository that carried
  its hash is that zeroed line, in the data the loop returns and in the file written.
\<close>

theorem empty_branch_line_zeroed:
  assumes "totalCount e = None"
  shows "snd (cache_step digest oid cc index e data remote w) = (remote, w)
       \<and> (index < length data \<and> split_ws (data ! index) = repo_hash # commit_count # rest
            \<and> repo_hash = digest (nameWithOwner e) \<and> py_int commit_count \<noteq> None
          \<longrightarrow> cache_step digest oid cc index e data remote w
              = (Returned (data[index := digest (nameWithOwner e) @ '' 0 0 0 0'' @ [newline]]),
                 remote, w))
       \<and> (\<forall>es k comment_size force_cache loc_add loc_del w0 res remote' w' cached cc0 data0 w1 h c r.
             cache_builder digest oid es comment_size force_cache loc_add loc_del remote w0
               = (Returned res, remote', w')
             \<and> cache_prepare digest es comment_size force_cache w0
                 = (Returned (cached, cc0, data0), w1)
             \<and> k < length es \<and> es ! k = e \<and> split_ws (data0 ! k) = h # c # r
             \<and> h = digest (nameWithOwner e)
           \<longrightarrow> (\<exists>data' w2.
                  cache_loop digest oid cc0 0 es data0 remote w1 = (Returned data', remote', w2)
                  \<and> w' = w2\<lparr>ledger_file := Some (writelines cc0 @ writelines data')\<rparr>
                  \<and> length data' = length data0 \<and> k < length data'
                  \<and> data' ! k = digest (nameWithOwner e) @ '' 0 0 0 0'' @ [newline]))"
proof (intro conjI allI impI)
  show "snd (cache_step digest oid cc index e data remote w) = (remote, w)"
    by (rule cache_step_empty_branch(1)[OF assms])
next
  assume "index < length data \<and> split_ws (data ! index) = repo_hash # commit_count # rest
            \<and> repo_hash = digest (nameWithOwner e) \<and> py_int commit_count \<noteq> None"
  then show "cache_step digest oid cc index e data remote w
              = (Returned (data[index := digest (nameWithOwner e) @ '' 0 0 0 0'' @ [newline]]),
                 remote, w)"
    using cache_step_empty_branch(2)[OF assms] unfolding zero_fields_def by blast
next
  fix es k comment_size force_cache loc_add loc_del w0 res remote' w' cached cc0 data0 w1 h c r
  assume a: "cache_builder digest oid es comment_size force_cache loc_add loc_del remote w0
               = (Returned res, remote', w')
             \<and> cache_prepare digest es comment_size force_cache w0
                 = (Returned (cached, cc0, data0), w1)
             \<and> k < length es \<and> es ! k = e \<and> split_ws (data0 ! k) = h # c # r
             \<and> h = digest (nameWithOwner e)"
  then have k: "k < length es" and ek: "es ! k = e"
    and sp: "split_ws (data0 ! k) = h # c # r" and h: "h = digest (nameWithOwner e)"
    and pr: "cache_prepare digest es comment_size force_cache w0
                 = (Returned (cached, cc0, data0), w1)"
    by blast+
  obtain la ld net cd where res: "res = (la, ld, net, cd)" by (cases res) auto
  from a res have run: "cache_builder digest oid es comment_size force_cache loc_add loc_del
                          remote w0 = (Returned (la, ld, net, cd), remote', w')"
    by simp
  from cache_builder_returned[OF run] pr obtain data' w2 where
    lp: "cache_loop digest oid cc0 0 es data0 remote w1 = (Returned data', remote', w2)"
    and w': "w' = w2\<lparr>ledger_file := Some (writelines cc0 @ writelines data')\<rparr>"
    by auto
  from cache_loop_at[OF lp k] ek obtain d1 r1 v1 d2 r2 v2 where
    st: "cache_step digest oid cc0 k e d1 r1 v1 = (Returned d2, r2, v2)"
    and l1: "length d1 = length data0" and e1: "d1 ! k = data0 ! k"
    and l': "length data' = length data0" and e': "data' ! k = d2 ! k"
    by blast
  from st have kl: "k < length d1" by (auto simp: cache_step_def split: if_splits)
  have s1: "split_ws (d1 ! k) = h # c # r" using e1 sp by simp
  from cache_step_empty_branch(3)[OF assms st s1 h]
  have d2: "d2 = d1[k := digest (nameWithOwner e) @ '' 0 0 0 0'' @ [newline]]"
    unfolding zero_fields_def .
  have z: "data' ! k = digest (nameWithOwner e) @ '' 0 0 0 0'' @ [newline]"
    using e' d2 kl by simp
  have "cache_loop digest oid cc0 0 es data0 remote w1 = (Returned data', remote', w2)
                  \<and> w' = w2\<lparr>ledger_file := Some (writelines cc0 @ writelines data')\<rparr>
                  \<and> length data' = length data0 \<and> k < length data'
                  \<and> data' ! k = digest (nameWithOwner e) @ '' 0 0 0 0'' @ [newline]"
    using lp w' l' kl l1 z by simp
  then show "\<exists>data' w2.
                  cache_loop digest oid cc0 0 es data0 remote w1 = (Returned data', remote', w2)
                  \<and> w' = w2\<lparr>ledger_file := Some (writelines cc0 @ writelines data')\<rparr>
                  \<and> length data' = length data0 \<and> k < length data'
                  \<and> data' ! k = digest (nameWithOwner e) @ '' 0 0 0 0'' @ [newline]"
    by blast
qed

text \<open>
  An instance: the line of a repository with a null branch, with counts left from before,
  after the line of a repository that is up to date.
\<close>

theorem empty_branch_line_zeroed_witness:
  "totalCount example_new_repo = None
   \<and> cache_builder hex_digest ''me''
        [\<lparr>nameWithOwner = ''a/b'', totalCount = Some 5\<rparr>, example_new_repo] 1 False 0 0
        [example_page 2 False]
        \<lparr>ledger_file = Some (''header'' @ [newline] @ ''612f62 5 2 6 2'' @ [newline]
                             @ ''612f64 9 1 2 3'' @ [newline]),
         events = []\<rparr>
     = (Returned (6, 2, 4, True), [example_page 2 False],
        \<lparr>ledger_file = Some (''header'' @ [newline] @ ''612f62 5 2 6 2'' @ [newline]
                             @ ''612f64 0 0 0 0'' @ [newline]),
         events = []\<rparr>)
   \<and> cache_step hex_digest ''me'' [''header'' @ [newline]] 1 example_new_repo
        [''612f62 5 2 6 2'' @ [newline], ''612f64 9 1 2 3'' @ [newline]]
        [example_page 2 False] example_world
     = (Returned [''612f62 5 2 6 2'' @ [newline], ''612f64 0 0 0 0'' @ [newline]],
        [example_page 2 False], example_world)
   \<and> (\<exists>data' w2.
         cache_loop hex_digest ''me'' [''header'' @ [newline]] 0
             [\<lparr>nameWithOwner = ''a/b'', totalCount = Some 5\<rparr>, example_new_repo]
             [''612f62 5 2 6 2'' @ [newline], ''612f64 9 1 2 3'' @ [newline]]
             [example_page 2 False]
             \<lparr>ledger_file = Some (''header'' @ [newline] @ ''612f62 5 2 6 2'' @ [newline]
                                  @ ''612f64 9 1 2 3'' @ [newline]),
              events = []\<rparr>
           = (Returned data', [example_page 2 False], w2)
         \<and> data' ! 1 = ''612f64 0 0 0 0'' @ [newline])"
proof -
  let ?data = "[''612f62 5 2 6 2'' @ [newline], ''612f64 9 1 2 3'' @ [newline]]"
  have h: "totalCount example_new_repo = None" by (simp add: example_new_repo_def)
  have run: "cache_builder hex_digest ''me''
        [\<lparr>nameWithOwner = ''a/b'', totalCount = Some 5\<rparr>, example_new_repo] 1 False 0 0
        [example_page 2 False]
        \<lparr>ledger_file = Some (''header'' @ [newline] @ ''612f62 5 2 6 2'' @ [newline]
                             @ ''612f64 9 1 2 3'' @ [newline]),
         events = []\<rparr>
     = (Returned (6, 2, 4, True), [example_page 2 False],
        \<lparr>ledger_file = Some (''header'' @ [newline] @ ''612f62 5 2 6 2'' @ [newline]
                             @ ''612f64 0 0 0 0'' @ [newline]),
         events = []\<rparr>)"
    by code_simp
  have p: "1 < length ?data
           \<and> split_ws (?data ! 1) = ''612f64'' # ''9'' # [''1'', ''2'', ''3'']
           \<and> ''612f64'' = hex_digest (nameWithOwner example_new_repo) \<and> py_int ''9'' \<noteq> None"
    by code_simp
  have e: "?data[1 := hex_digest (nameWithOwner example_new_repo) @ '' 0 0 0 0'' @ [newline]]
           = [''612f62 5 2 6 2'' @ [newline], ''612f64 0 0 0 0'' @ [newline]]"
    by code_simp
  note T = empty_branch_line_zeroed[OF h, where digest=hex_digest and oid="''me''"
      and cc="[''header'' @ [newline]]" and index=1 and data="?data"
      and remote="[example_page 2 False]" and w=example_world and repo_hash="''612f64''"
      and commit_count="''9''" and rest="[''1'', ''2'', ''3'']"]
  from T[THEN conjunct2, THEN conjunct1, rule_format, OF p]
  have step: "cache_step hex_digest ''me'' [''header'' @ [newline]] 1 example_new_repo ?data
                [example_page 2 False] example_world
              = (Returned [''612f62 5 2 6 2'' @ [newline], ''612f64 0 0 0 0'' @ [newline]],
                 [example_page 2 False], example_world)"
    unfolding e .
  have prep: "cache_prepare hex_digest
                [\<lparr>nameWithOwner = ''a/b'', totalCount = Some 5\<rparr>, example_new_repo] 1 False
                \<lparr>ledger_file = Some (''header'' @ [newline] @ ''612f62 5 2 6 2'' @ [newline]
                                     @ ''612f64 9 1 2 3'' @ [newline]),
                 events = []\<rparr>
              = (Returned (True, [''header'' @ [newline]], ?data),
                 \<lparr>ledger_file = Some (''header'' @ [newline] @ ''612f62 5 2 6 2'' @ [newline]
                                     @ ''612f64 9 1 2 3'' @ [newline]),
                  events = []\<rparr>)"
    by code_simp
  have q: "(1::nat) < length [\<lparr>nameWithOwner = ''a/b'', totalCount = Some 5\<rparr>, example_new_repo]
           \<and> [\<lparr>nameWithOwner = ''a/b'', totalCount = Some 5\<rparr>, example_new_repo] ! 1
               = example_new_repo
           \<and> split_ws (?data ! 1) = ''612f64'' # ''9'' # [''1'', ''2'', ''3'']
           \<and> ''612f64'' = hex_digest (nameWithOwner example_new_repo)"
    by code_simp
  have z: "hex_digest (nameWithOwner example_new_repo) @ '' 0 0 0 0'' @ [newline]
           = ''612f64 0 0 0 0'' @ [newline]"
    by code_simp
  from T[THEN conjunct2, THEN conjunct2, rule_format, OF conjI[OF run conjI[OF prep q]]]
  have "\<exists>data' w2.
         cache_loop hex_digest ''me'' [''header'' @ [newline]] 0
             [\<lparr>nameWithOwner = ''a/b'', totalCount = Some 5\<rparr>, example_new_repo] ?data
             [example_page 2 False]
             \<lparr>ledger_file = Some (''header'' @ [newline] @ ''612f62 5 2 6 2'' @ [newline]
                                  @ ''612f64 9 1 2 3'' @ [newline]),
              events = []\<rparr>
           = (Returned data', [example_page 2 False], w2)
         \<and> data' ! 1 = ''612f64 0 0 0 0'' @ [newline]"
    unfolding z by blast
  with h run step show ?thesis by blast
qed

text \<open>
  C2, as stated, fails: with one repository \<open>a/b\<close> and a ledger whose line carries the hash
  \<open>deadbeef\<close>, the run returns with \<open>cached\<close> True, the file as it was, the stale line in
  the totals, and no request sent, although the stored count 3 is not the remote count 5.
\<close>

theorem mismatch_triggers_no_rebuild:
  "''deadbeef'' \<noteq> hex_digest ''a/b''
   \<and> cache_builder hex_digest ''me'' [\<lparr>nameWithOwner = ''a/b'', totalCount = Some 5\<rparr>] 1 False 0 0
        [example_page 2 False] example_stale_world
     = (Returned (7, 2, 5, True), [example_page 2 False], example_stale_world)"
  by code_simp

text \<open>
  C2, amended. A line whose first field is not the hash of the repository at the same place
  of the enumeration is skipped: the round leaves data, remote and world as they are, raises
  nothing and sends no request. The mismatch triggers no rebuild: when the number of data
  lines is the number of repositories and \<open>force_cache\<close> is not set, the file is left as it
  is before the loop. In every run of \<open>cache_builder\<close> that then returns, \<open>cached\<close> is
  True, the line is in the data the loop returns and in the file written as it was, and its
  fourth and fifth fields are part of the sums returned.
\<close>

theorem mismatched_line_kept_and_counted:
  assumes "ledger_file w = Some s"
      and "int (length (readlines s)) - comment_size = int (length es)" and "\<not> force_cache"
      and "k < length es"
      and "split_ws (slice_from (readlines s) comment_size ! k) = repo_hash # commit_count # rest"
      and "repo_hash \<noteq> digest (nameWithOwner (es ! k))"
  shows "(\<forall>data remote0 w0.
            k < length data \<and> split_ws (data ! k) = repo_hash # commit_count # rest
            \<longrightarrow> cache_step digest oid cc k (es ! k) data remote0 w0 = (Returned data, remote0, w0))
       \<and> cache_prepare digest es comment_size force_cache w
           = (Returned (True, slice_upto (readlines s) comment_size,
                        slice_from (readlines s) comment_size), w)
       \<and> (\<forall>la ld net cached remote' w'.
            cache_builder digest oid es comment_size force_cache loc_add loc_del remote w
              = (Returned (la, ld, net, cached), remote', w')
            \<longrightarrow> cached
                \<and> (\<exists>data' w2.
                      cache_loop digest oid (slice_upto (readlines s) comment_size) 0 es
                          (slice_from (readlines s) comment_size) remote w
                        = (Returned data', remote', w2)
                      \<and> w' = w2\<lparr>ledger_file :=
                                    Some (writelines (slice_upto (readlines s) comment_size)
                                          @ writelines data')\<rparr>
                      \<and> length data' = length (slice_from (readlines s) comment_size)
                      \<and> k < length data'
                      \<and> data' ! k = slice_from (readlines s) comment_size ! k
                      \<and> la = loc_add + field_sum 3 (take k data')
                                + field_value 3 (slice_from (readlines s) comment_size ! k)
                                + field_sum 3 (drop (Suc k) data')
                      \<and> ld = loc_del + field_sum 4 (take k data')
                                + field_value 4 (slice_from (readlines s) comment_size ! k)
                                + field_sum 4 (drop (Suc k) data')
                      \<and> net = la - ld))"
proof (intro conjI allI impI)
  fix data remote0 w0
  assume "k < length data \<and> split_ws (data ! k) = repo_hash # commit_count # rest"
  then show "cache_step digest oid cc k (es ! k) data remote0 w0 = (Returned data, remote0, w0)"
    using cache_step_mismatch[where digest=digest and e="es ! k" and repo_hash=repo_hash] assms(6) by blast
next
  show pk: "cache_prepare digest es comment_size force_cache w
           = (Returned (True, slice_upto (readlines s) comment_size,
                        slice_from (readlines s) comment_size), w)"
    by (rule cache_prepare_kept[OF assms(1-3)])
  fix la ld net cached remote' w'
  let ?cc = "slice_upto (readlines s) comment_size"
  let ?data = "slice_from (readlines s) comment_size"
  assume run: "cache_builder digest oid es comment_size force_cache loc_add loc_del remote w
              = (Returned (la, ld, net, cached), remote', w')"
  from cache_builder_returned[OF run] pk obtain data' w2 where
    c: "cached = True"
    and lp: "cache_loop digest oid ?cc 0 es ?data remote w = (Returned data', remote', w2)"
    and sm: "sum_loc data' loc_add loc_del = Returned (la, ld)" and net: "net = la - ld"
    and w': "w' = w2\<lparr>ledger_file := Some (writelines ?cc @ writelines data')\<rparr>"
    by auto
  from cache_loop_at[OF lp assms(4)] obtain d1 r1 w1 d2 r2 w2' where
    st: "cache_step digest oid ?cc k (es ! k) d1 r1 w1 = (Returned d2, r2, w2')"
    and l1: "length d1 = length ?data" and e1: "d1 ! k = ?data ! k"
    and l': "length data' = length ?data" and e': "data' ! k = d2 ! k"
    by blast
  from st have kl: "k < length d1" by (auto simp: cache_step_def split: if_splits)
  have "split_ws (d1 ! k) = repo_hash # commit_count # rest" using e1 assms(5) by simp
  from cache_step_mismatch[where digest=digest and e="es ! k" and oid=oid and cc="?cc" and remote=r1 and w=w1, OF kl this assms(6)] st
  have "d2 = d1" by simp
  with e' e1 have keep: "data' ! k = ?data ! k" by simp
  have kd: "k < length data'" using kl l1 l' by simp
  from sum_loc_fields[OF sm] field_sum_at[OF kd, of 3] field_sum_at[OF kd, of 4] keep
  have la: "la = loc_add + field_sum 3 (take k data') + field_value 3 (?data ! k)
                  + field_sum 3 (drop (Suc k) data')"
    and ld: "ld = loc_del + field_sum 4 (take k data') + field_value 4 (?data ! k)
                  + field_sum 4 (drop (Suc k) data')"
    by simp_all
  show "cached" using c by simp
  have "cache_loop digest oid ?cc 0 es ?data remote w = (Returned data', remote', w2)
                      \<and> w' = w2\<lparr>ledger_file := Some (writelines ?cc @ writelines data')\<rparr>
                      \<and> length data' = length ?data
                      \<and> k < length data'
                      \<and> data' ! k = ?data ! k
                      \<and> la = loc_add + field_sum 3 (take k data')
                                + field_value 3 (?data ! k)
                                + field_sum 3 (drop (Suc k) data')
                      \<and> ld = loc_del + field_sum 4 (take k data')
                                + field_value 4 (?data ! k)
                                + field_sum 4 (drop (Suc k) data')
                      \<and> net = la - ld"
    using lp w' l' kd keep la ld net by simp
  then show "\<exists>data' w2.
                      cache_loop digest oid ?cc 0 es ?data remote w = (Returned data', remote', w2)
                      \<and> w' = w2\<lparr>ledger_file := Some (writelines ?cc @ writelines data')\<rparr>
                      \<and> length data' = length ?data
                      \<and> k < length data'
                      \<and> data' ! k = ?data ! k
                      \<and> la = loc_add + field_sum 3 (take k data')
                                + field_value 3 (?data ! k)
                                + field_sum 3 (drop (Suc k) data')
                      \<and> ld = loc_del + field_sum 4 (take k data')
                                + field_value 4 (?data ! k)
                                + field_sum 4 (drop (Suc k) data')
                      \<and> net = la - ld"
    by blast
qed

text \<open>
  An instance: the ledger whose line carries the hash \<open>deadbeef\<close>.
\<close>

theorem mismatched_line_kept_and_counted_witness:
  "ledger_file example_stale_world
     = Some (writelines [''header'' @ [newline], ''deadbeef 3 1 7 2'' @ [newline]])
   \<and> int (length (readlines (writelines [''header'' @ [newline],
                                          ''deadbeef 3 1 7 2'' @ [newline]]))) - 1
       = int (length [\<lparr>nameWithOwner = ''a/b'', totalCount = Some 5\<rparr>])
   \<and> (0::nat) < length [\<lparr>nameWithOwner = ''a/b'', totalCount = Some 5\<rparr>]
   \<and> split_ws (slice_from (readlines (writelines [''header'' @ [newline],
                                                 ''deadbeef 3 1 7 2'' @ [newline]])) 1 ! 0)
       = ''deadbeef'' # ''3'' # [''1'', ''7'', ''2'']
   \<and> ''deadbeef'' \<noteq> hex_digest (nameWithOwner
                                     ([\<lparr>nameWithOwner = ''a/b'', totalCount = Some 5\<rparr>] ! 0))
   \<and> cache_builder hex_digest ''me'' [\<lparr>nameWithOwner = ''a/b'', totalCount = Some 5\<rparr>] 1 False
        0 0 [example_page 2 False] example_stale_world
       = (Returned (7, 2, 5, True), [example_page 2 False],
          \<lparr>ledger_file = Some (''header'' @ [newline] @ ''deadbeef 3 1 7 2'' @ [newline]),
           events = []\<rparr>)
   \<and> field_value 3 (''deadbeef 3 1 7 2'' @ [newline]) = 7
   \<and> field_value 4 (''deadbeef 3 1 7 2'' @ [newline]) = 2
   \<and> (\<exists>data'. length data' = 1 \<and> data' ! 0 = ''deadbeef 3 1 7 2'' @ [newline]
                \<and> (7::int) = 0 + field_sum 3 (take 0 data')
                                + field_value 3 (''deadbeef 3 1 7 2'' @ [newline])
                                + field_sum 3 (drop (Suc 0) data'))"
proof -
  let ?s = "writelines [''header'' @ [newline], ''deadbeef 3 1 7 2'' @ [newline]]"
  let ?es = "[\<lparr>nameWithOwner = ''a/b'', totalCount = Some 5\<rparr>]"
  have a: "ledger_file example_stale_world = Some ?s" by code_simp
  have b: "int (length (readlines ?s)) - 1 = int (length ?es)" by code_simp
  have c: "\<not> False" by simp
  have d: "(0::nat) < length ?es" by simp
  have e: "split_ws (slice_from (readlines ?s) 1 ! 0) = ''deadbeef'' # ''3'' # [''1'', ''7'', ''2'']"
    by code_simp
  have f: "''deadbeef'' \<noteq> hex_digest (nameWithOwner (?es ! 0))" by code_simp
  have run: "cache_builder hex_digest ''me'' ?es 1 False 0 0 [example_page 2 False]
               example_stale_world
             = (Returned (7, 2, 5, True), [example_page 2 False],
                \<lparr>ledger_file = Some (''header'' @ [newline] @ ''deadbeef 3 1 7 2'' @ [newline]),
                 events = []\<rparr>)"
    by code_simp
  have line: "slice_from (readlines ?s) 1 ! 0 = ''deadbeef 3 1 7 2'' @ [newline]"
    and len: "length (slice_from (readlines ?s) 1) = 1"
    by code_simp+
  have v: "field_value 3 (''deadbeef 3 1 7 2'' @ [newline]) = 7"
          "field_value 4 (''deadbeef 3 1 7 2'' @ [newline]) = 2"
    by code_simp+
  note T = mismatched_line_kept_and_counted[where digest=hex_digest and oid="''me''"
      and w=example_stale_world and comment_size=1 and force_cache=False and es="?es" and k=0
      and repo_hash="''deadbeef''" and commit_count="''3''" and rest="[''1'', ''7'', ''2'']"
      and loc_add=0 and loc_del=0 and remote="[example_page 2 False]", OF a b c d e f]
  from T[THEN conjunct2, THEN conjunct2, rule_format, OF run]
  have "\<exists>data'. length data' = 1 \<and> data' ! 0 = ''deadbeef 3 1 7 2'' @ [newline]
                \<and> (7::int) = 0 + field_sum 3 (take 0 data')
                                + field_value 3 (''deadbeef 3 1 7 2'' @ [newline])
                                + field_sum 3 (drop (Suc 0) data')"
    unfolding line len by blast
  with a b d e f run v show ?thesis by blast
qed


section \<open>Own commits and total commits\<close>

lemma count_own_bounds:
  "count_own oid ns (a, d, m) = Some (a', d', m') \<Longrightarrow> m \<le> m' \<and> m' \<le> m + int (length ns)"
proof (induction ns arbitrary: a d m)
  case Nil
  then show ?case by simp
next
  case (Cons n ns)
  show ?case
  proof (cases "author n")
    case None
    with Cons.prems show ?thesis by simp
  next
    case (Some u)
    show ?thesis
    proof (cases "u = Some oid")
      case True
      with Some Cons.prems Cons.IH[of "a + additions n" "d + deletions n" "m + 1"]
      show ?thesis by simp
    next
      case False
      with Some Cons.prems Cons.IH[of a d m] show ?thesis by simp
    qed
  qed
qed

lemma reducer_count_bounded:
  "recursive_loc oid owner repo data cc a d m cursor rc cf remote w
     = (Returned (Loc a' d' m'), remote', w')
   \<Longrightarrow> m \<le> m' \<and> m' + int (commits_served remote') \<le> m + int (commits_served remote)"
  "loc_counter_one_repo oid owner repo data cc h a d m cf remote w
     = (Returned (Loc a' d' m'), remote', w')
   \<Longrightarrow> m \<le> m'
       \<and> m' + int (commits_served remote') \<le> m + int (length (edges h)) + int (commits_served remote)"
proof (induction oid owner repo data cc a d m cursor rc cf remote w
        and oid owner repo data cc h a d m cf remote w
        rule: recursive_loc_loc_counter_one_repo.induct)
  case (1 oid owner repo data cc a d m cursor rc cf w)
  then show ?case by (simp add: recursive_loc_Nil)
next
  case (2 oid owner repo data cc a d m cursor rc cf request remote w)
  show ?case
  proof (cases "status_code request = 200")
    case True
    show ?thesis
    proof (cases "body request")
      case NoRepository
      with True "2.prems" show ?thesis by (simp add: recursive_loc_no_repo)
    next
      case EmptyBranch
      with True "2.prems" show ?thesis by (simp add: recursive_loc_empty)
    next
      case (Commits h)
      with True "2.prems" "2.IH"(1)[OF refl True Commits] show ?thesis
        by (simp add: recursive_loc_page)
    qed
  next
    case False
    show ?thesis
    proof (cases "status_code request \<in> TRANSIENT_ERROR_CODES \<and> rc < MAX_RETRIES")
      case True
      with False "2.prems" "2.IH"(2)[OF refl False True] show ?thesis
        by (simp add: recursive_loc_retry)
    next
      case F2: False
      from "2.prems" show ?thesis
        by (simp add: recursive_loc_fail[OF False F2])
    qed
  qed
next
  case (3 oid owner repo data cc h a d m cf remote w)
  show ?case
  proof (cases "count_own oid (edges h) (a, d, m)")
    case None
    with "3.prems" show ?thesis by (simp add: loc_counter_type_error)
  next
    case (Some t)
    obtain a1 d1 m1 where t: "t = (a1, d1, m1)" by (cases t) auto
    from count_own_bounds[OF Some[unfolded t]]
    have b: "m \<le> m1" "m1 \<le> m + int (length (edges h))" by auto
    show ?thesis
    proof (cases "edges h = [] \<or> \<not> hasNextPage h")
      case True
      with Some t "3.prems" b show ?thesis by (auto simp add: loc_counter_last)
    next
      case False
      show ?thesis
      proof (cases "cf + length (edges h) \<ge> MAX_COMMITS_PER_REPO")
        case True
        with False Some t "3.prems" b show ?thesis by (auto simp add: loc_counter_ceiling)
      next
        case F3: False
        with "3.IH"[OF refl Some t[symmetric] refl False] False Some t "3.prems" b
        show ?thesis by (auto simp add: loc_counter_next)
      qed
    qed
  qed
qed

text \<open>
  C8, amended. The code never compares the two counts. What a round of the loop writes is
  the line as it was, the zeroed line, or a line whose total is the count of the enumeration
  and whose own count is the number of own commits in the pages served: that count is at
  most the total provided the pages served for the repository in this round hold no more
  commits than the enumeration reported.
\<close>

theorem authored_at_most_served:
  assumes "cache_step digest oid cc index e data remote w = (Returned data', remote', w')"
      and "\<forall>t. totalCount e = Some t
               \<longrightarrow> int (commits_served remote) - int (commits_served remote') \<le> t"
  shows "data' = data
       \<or> data' = data[index := digest (nameWithOwner e) @ zero_fields]
       \<or> (\<exists>t a d m. totalCount e = Some t
             \<and> data' = data[index := digest (nameWithOwner e) @ '' '' @ py_str t @ '' ''
                                      @ py_str m @ '' '' @ py_str a @ '' '' @ py_str d
                                      @ [newline]]
             \<and> 0 \<le> m \<and> m \<le> t)"
proof -
  have rl: "\<And>hs c. refresh_line oid cc index e hs c data remote w = (Returned data', remote', w')
        \<Longrightarrow> data' = data
           \<or> (\<exists>t a d m. totalCount e = Some t
             \<and> data' = data[index := hs @ '' '' @ py_str t @ '' ''
                                      @ py_str m @ '' '' @ py_str a @ '' '' @ py_str d
                                      @ [newline]]
             \<and> 0 \<le> m \<and> m \<le> t)"
  proof -
    fix hs c
    assume r: "refresh_line oid cc index e hs c data remote w = (Returned data', remote', w')"
    show "data' = data
           \<or> (\<exists>t a d m. totalCount e = Some t
             \<and> data' = data[index := hs @ '' '' @ py_str t @ '' ''
                                      @ py_str m @ '' '' @ py_str a @ '' '' @ py_str d
                                      @ [newline]]
             \<and> 0 \<le> m \<and> m \<le> t)"
    proof (cases "data' = data")
      case True
      then show ?thesis by simp
    next
      case False
      with r obtain t owner repo a d m where
        t: "totalCount e = Some t"
        and rec: "recursive_loc oid owner repo data cc 0 0 0 None 0 0 remote w
                  = (Returned (Loc a d m), remote', w')"
        and d': "data' = data[index := hs @ '' '' @ py_str t @ '' ''
                                      @ py_str m @ '' '' @ py_str a @ '' '' @ py_str d
                                      @ [newline]]"
        by (auto simp: refresh_line_def split: option.splits if_splits list.splits prod.splits
                   outcome.splits loc.splits)
      from reducer_count_bounded(1)[OF rec] assms(2) t
      have "0 \<le> m \<and> m \<le> t" by auto
      with t d' show ?thesis by blast
    qed
  qed
  from assms(1) show ?thesis
    by (auto simp: cache_step_def split: if_splits list.splits prod.splits outcome.splits
                   exn.splits dest!: rl)
qed

text \<open>
  C8, as stated, fails: the enumeration reports one commit for \<open>a/b\<close>, the history page
  then holds two commits of the user; the line written has the total 1 and the own count 2.
\<close>

theorem authored_exceeds_total:
  "cache_builder hex_digest ''me'' [\<lparr>nameWithOwner = ''a/b'', totalCount = Some 1\<rparr>] 1 False 0 0
     [example_page 2 False]
     \<lparr>ledger_file = Some (writelines [''header'' @ [newline], ''612f62 0 0 0 0'' @ [newline]]),
      events = []\<rparr>
   = (Returned (6, 2, 4, True), [],
      \<lparr>ledger_file = Some (writelines [''header'' @ [newline], ''612f62 1 2 6 2'' @ [newline]]),
       events = [Fetch ''a'' ''b'' None 0]\<rparr>)
   \<and> split_ws (''612f62 1 2 6 2'' @ [newline]) = [''612f62'', ''1'', ''2'', ''6'', ''2'']
   \<and> py_int ''1'' = Some 1 \<and> py_int ''2'' = Some 2 \<and> \<not> ((2::int) \<le> 1)"
  by code_simp

text \<open>
  An instance: a page of two commits for a repository with five commits.
\<close>

theorem authored_at_most_served_witness:
  "cache_step hex_digest ''me'' [''header'' @ [newline]] 0
      \<lparr>nameWithOwner = ''a/b'', totalCount = Some 5\<rparr> example_ledger
      [example_page 2 False] example_world
   = (Returned [''612f62 5 2 6 2'' @ [newline], ''612f63 4 1 1 1'' @ [newline]], [],
      emit (Fetch ''a'' ''b'' None 0) example_world)
   \<and> int (commits_served [example_page 2 False]) - int (commits_served []) \<le> 5
   \<and> ([''612f62 5 2 6 2'' @ [newline], ''612f63 4 1 1 1'' @ [newline]] = example_ledger
       \<or> [''612f62 5 2 6 2'' @ [newline], ''612f63 4 1 1 1'' @ [newline]]
           = example_ledger[0 := hex_digest (nameWithOwner \<lparr>nameWithOwner = ''a/b'', totalCount = Some 5\<rparr>)
                                  @ zero_fields]
       \<or> (\<exists>t a d m. totalCount \<lparr>nameWithOwner = ''a/b'', totalCount = Some 5\<rparr> = Some t
             \<and> [''612f62 5 2 6 2'' @ [newline], ''612f63 4 1 1 1'' @ [newline]]
                 = example_ledger[0 := hex_digest (nameWithOwner \<lparr>nameWithOwner = ''a/b'', totalCount = Some 5\<rparr>)
                                      @ '' '' @ py_str t @ '' ''
                                      @ py_str m @ '' '' @ py_str a @ '' '' @ py_str d
                                      @ [newline]]
             \<and> 0 \<le> m \<and> m \<le> t))"
proof -
  have s: "cache_step hex_digest ''me'' [''header'' @ [newline]] 0
      \<lparr>nameWithOwner = ''a/b'', totalCount = Some 5\<rparr> example_ledger
      [example_page 2 False] example_world
   = (Returned [''612f62 5 2 6 2'' @ [newline], ''612f63 4 1 1 1'' @ [newline]], [],
      emit (Fetch ''a'' ''b'' None 0) example_world)"
    by code_simp
  have b: "int (commits_served [example_page 2 False]) - int (commits_served []) \<le> 5"
    by code_simp
  then have h: "\<forall>t. totalCount \<lparr>nameWithOwner = ''a/b'', totalCount = Some 5\<rparr> = Some t
               \<longrightarrow> int (commits_served [example_page 2 False]) - int (commits_served []) \<le> t"
    by simp
  from authored_at_most_served[OF s h] s b show ?thesis by blast
qed

section \<open>The ceiling on fetched commits\<close>

lemma requests_sent_emit [simp]:
  "requests_sent (emit (Fetch owner repo cursor cf) w) = requests_sent w + 1"
  "requests_sent (emit (Sleep n) w) = requests_sent w"
  "requests_sent (emit (Truncated owner repo) w) = requests_sent w"
  by (simp_all add: requests_sent_def emit_def)

lemma ledger_file_emit [simp]: "ledger_file (emit e w) = ledger_file w"
  by (simp add: emit_def)

lemma full_pages:
  assumes "author c = Some (Some oid)"
      and "status_code p = 200" and "body p = Commits h" and "edges h = replicate k c"
      and "hasNextPage h" and "0 < k"
      and "cf + n * k < MAX_COMMITS_PER_REPO"
  shows "\<exists>w1. recursive_loc oid owner repo data cc a d m cursor rc cf (replicate n p @ remote) w
           = recursive_loc oid owner repo data cc
               (a + int (n * k) * additions c) (d + int (n * k) * deletions c) (m + int (n * k))
               (if n = 0 then cursor else endCursor h) (if n = 0 then rc else 0) (cf + n * k)
               remote w1
         \<and> ledger_file w1 = ledger_file w \<and> requests_sent w1 = requests_sent w + n"
  using assms(7)
proof (induction n arbitrary: a d m cursor rc cf w)
  case 0
  have "recursive_loc oid owner repo data cc a d m cursor rc cf remote w
        = recursive_loc oid owner repo data cc a d m cursor rc cf remote w
        \<and> ledger_file w = ledger_file w \<and> requests_sent w = requests_sent w" by simp
  then show ?case by (simp del: ex_simps) blast
next
  case (Suc n)
  let ?a = "a + int k * additions c" and ?d = "d + int k * deletions c" and ?m = "m + int k"
  have co: "count_own oid (edges h) (a, d, m) = Some (?a, ?d, ?m)"
    using assms(1,4) by (simp add: count_own_replicate)
  have ne: "edges h \<noteq> []" using assms(4,6) by auto
  have lt: "cf + length (edges h) < MAX_COMMITS_PER_REPO"
    using Suc.prems assms(4) by simp
  have step: "recursive_loc oid owner repo data cc a d m cursor rc cf (replicate (Suc n) p @ remote) w
        = recursive_loc oid owner repo data cc ?a ?d ?m (endCursor h) 0 (cf + k)
            (replicate n p @ remote) (emit (Fetch owner repo cursor cf) w)"
    using assms(4) by (simp add: recursive_loc_page[OF assms(2,3)] loc_counter_next[OF co ne assms(5) lt])
  have "(cf + k) + n * k < MAX_COMMITS_PER_REPO" using Suc.prems by (simp add: algebra_simps)
  from Suc.IH[OF this, of ?a ?d ?m "endCursor h" 0 "emit (Fetch owner repo cursor cf) w"]
  obtain w1 where
    *: "recursive_loc oid owner repo data cc ?a ?d ?m (endCursor h) 0 (cf + k)
            (replicate n p @ remote) (emit (Fetch owner repo cursor cf) w)
        = recursive_loc oid owner repo data cc
               (?a + int (n * k) * additions c) (?d + int (n * k) * deletions c) (?m + int (n * k))
               (if n = 0 then endCursor h else endCursor h) (if n = 0 then 0 else 0)
               (cf + k + n * k) remote w1"
    and **: "ledger_file w1 = ledger_file (emit (Fetch owner repo cursor cf) w)"
            "requests_sent w1 = requests_sent (emit (Fetch owner repo cursor cf) w) + n"
    by blast
  have "recursive_loc oid owner repo data cc a d m cursor rc cf (replicate (Suc n) p @ remote) w
        = recursive_loc oid owner repo data cc
               (a + int (Suc n * k) * additions c) (d + int (Suc n * k) * deletions c)
               (m + int (Suc n * k))
               (if Suc n = 0 then cursor else endCursor h) (if Suc n = 0 then rc else 0)
               (cf + Suc n * k) remote w1"
    unfolding step * by (simp add: algebra_simps)
  moreover have "ledger_file w1 = ledger_file w" "requests_sent w1 = requests_sent w + Suc n"
    using ** by simp_all
  ultimately show ?case by blast
qed

text \<open>
  Without a failed request the ceiling works: when every page holds 100 commits and
  announces a next page, the fetch ends with the fiftieth page.
\<close>

lemma ceiling_stops_full_pages:
  assumes "author c = Some (Some oid)"
      and "status_code p = 200" and "body p = Commits h" and "edges h = replicate 100 c"
      and "hasNextPage h"
  shows "\<exists>w'. recursive_loc oid owner repo data cc a d m cursor rc 0 (replicate 50 p @ remote) w
              = (Returned (Loc (a + 5000 * additions c) (d + 5000 * deletions c) (m + 5000)),
                 remote, w')
            \<and> requests_sent w' = requests_sent w + 50 \<and> ledger_file w' = ledger_file w"
proof -
  have sp: "replicate 50 p = replicate 49 p @ [p]"
  proof -
    have "replicate (49 + 1) p = replicate 49 p @ replicate 1 p" by (rule replicate_add)
    moreover have "(49::nat) + 1 = 50" by simp
    moreover have "replicate 1 p = [p]" by simp
    ultimately show ?thesis by (simp only:)
  qed
  have b: "0 + 49 * 100 < MAX_COMMITS_PER_REPO" by (simp add: MAX_COMMITS_PER_REPO_def)
  from full_pages[OF assms(1-5) _ b, of owner repo data cc a d m cursor rc "[p] @ remote" w]
  obtain w1 where
    s1: "recursive_loc oid owner repo data cc a d m cursor rc 0 (replicate 49 p @ [p] @ remote) w
         = recursive_loc oid owner repo data cc (a + 4900 * additions c) (d + 4900 * deletions c)
             (m + 4900) (endCursor h) 0 4900 ([p] @ remote) w1"
    and f1: "ledger_file w1 = ledger_file w" and r1: "requests_sent w1 = requests_sent w + 49"
    by auto
  have co: "count_own oid (edges h) (a + 4900 * additions c, d + 4900 * deletions c, m + 4900)
            = Some (a + 5000 * additions c, d + 5000 * deletions c, m + 5000)"
    using count_own_replicate[OF assms(1), of 100] assms(4) by (simp add: algebra_simps)
  have ce: "4900 + length (edges h) \<ge> MAX_COMMITS_PER_REPO"
    using assms(4) by (simp add: MAX_COMMITS_PER_REPO_def)
  have ne: "edges h \<noteq> []" using assms(4) by auto
  let ?w2 = "emit (Truncated owner repo) (emit (Fetch owner repo (endCursor h) 4900) w1)"
  have s2: "recursive_loc oid owner repo data cc (a + 4900 * additions c) (d + 4900 * deletions c)
             (m + 4900) (endCursor h) 0 4900 ([p] @ remote) w1
            = (Returned (Loc (a + 5000 * additions c) (d + 5000 * deletions c) (m + 5000)),
               remote, ?w2)"
    by (simp add: recursive_loc_page[OF assms(2,3)] loc_counter_ceiling[OF co ne assms(5) ce])
  have "recursive_loc oid owner repo data cc a d m cursor rc 0 (replicate 50 p @ remote) w
              = (Returned (Loc (a + 5000 * additions c) (d + 5000 * deletions c) (m + 5000)),
                 remote, ?w2)"
    using s1 s2 sp by simp
  moreover have "requests_sent ?w2 = requests_sent w + 50" using r1 by simp
  moreover have "ledger_file ?w2 = ledger_file w" using f1 by simp
  ultimately show ?thesis by blast
qed

text \<open>
  C4, at a failing input. A repository with more than 5000 commits, all of the user, is
  served in pages of 100 commits, and the eleventh request meets a 502. The retry starts the
  count of fetched commits again at 0, so the ceiling of 5000 is reached only 50 pages after
  the failure: 61 requests are sent, 6000 commits are fetched and 6000 own commits are
  returned, and the warning about the ceiling is the last event.
\<close>

theorem ceiling_passed_after_retry:
  "fst (recursive_loc ''me'' ''a'' ''b'' [] [] 0 0 0 None 0 0
          (replicate 10 (example_page 100 True) @ [example_failure 502]
           @ replicate 50 (example_page 100 True))
          \<lparr>ledger_file = None, events = []\<rparr>)
     = Returned (Loc 18000 6000 6000)
   \<and> fst (snd (recursive_loc ''me'' ''a'' ''b'' [] [] 0 0 0 None 0 0
          (replicate 10 (example_page 100 True) @ [example_failure 502]
           @ replicate 50 (example_page 100 True))
          \<lparr>ledger_file = None, events = []\<rparr>))
     = []
   \<and> requests_sent (snd (snd (recursive_loc ''me'' ''a'' ''b'' [] [] 0 0 0 None 0 0
          (replicate 10 (example_page 100 True) @ [example_failure 502]
           @ replicate 50 (example_page 100 True))
          \<lparr>ledger_file = None, events = []\<rparr>)))
     = 61
   \<and> last (events (snd (snd (recursive_loc ''me'' ''a'' ''b'' [] [] 0 0 0 None 0 0
          (replicate 10 (example_page 100 True) @ [example_failure 502]
           @ replicate 50 (example_page 100 True))
          \<lparr>ledger_file = None, events = []\<rparr>))))
     = Truncated ''a'' ''b''"
proof -
  let ?h = "\<lparr>edges = replicate 100 example_commit, hasNextPage = True, endCursor = Some ''c''\<rparr>"
  let ?P = "example_page 100 True"
  let ?w = "\<lparr>ledger_file = None, events = []\<rparr>"
  have au: "author example_commit = Some (Some ''me'')" by (simp add: example_commit_def)
  have st: "status_code ?P = 200" and bd: "body ?P = Commits ?h"
    by (simp_all add: example_page_def)
  have ed: "edges ?h = replicate 100 example_commit" and nx: "hasNextPage ?h" by simp_all
  have ad: "additions example_commit = 3" "deletions example_commit = 1"
    by (simp_all add: example_commit_def)
  have b1: "0 + 10 * 100 < MAX_COMMITS_PER_REPO" by (simp add: MAX_COMMITS_PER_REPO_def)
  have b2: "0 + 49 * 100 < MAX_COMMITS_PER_REPO" by (simp add: MAX_COMMITS_PER_REPO_def)
  have sp: "replicate 50 ?P = replicate 49 ?P @ [?P]"
  proof -
    have "replicate (49 + 1) ?P = replicate 49 ?P @ replicate 1 ?P" by (rule replicate_add)
    moreover have "(49::nat) + 1 = 50" by simp
    moreover have "replicate 1 ?P = [?P]" by simp
    ultimately show ?thesis by (simp only:)
  qed
  from full_pages[OF au st bd ed nx _ b1, of "''a''" "''b''" "[]" "[]" 0 0 0 None 0
      "[example_failure 502] @ replicate 50 ?P" ?w]
  obtain w1 where
    s1: "recursive_loc ''me'' ''a'' ''b'' [] [] 0 0 0 None 0 0
           (replicate 10 ?P @ [example_failure 502] @ replicate 50 ?P) ?w
         = recursive_loc ''me'' ''a'' ''b'' [] [] 3000 1000 1000 (Some ''c'') 0 1000
             ([example_failure 502] @ replicate 50 ?P) w1"
    and r1: "requests_sent w1 = requests_sent ?w + 10"
    by (auto simp: ad)
  have tr: "status_code (example_failure 502) \<in> TRANSIENT_ERROR_CODES"
    by (simp add: example_failure_def TRANSIENT_ERROR_CODES_def)
  have rt: "(0::nat) < MAX_RETRIES" by (simp add: MAX_RETRIES_def)
  let ?w2 = "emit (Sleep (RETRY_DELAY_BASE * 2 ^ 0)) (emit (Fetch ''a'' ''b'' (Some ''c'') 1000) w1)"
  have s2: "recursive_loc ''me'' ''a'' ''b'' [] [] 3000 1000 1000 (Some ''c'') 0 1000
             ([example_failure 502] @ replicate 50 ?P) w1
          = recursive_loc ''me'' ''a'' ''b'' [] [] 3000 1000 1000 (Some ''c'') (0 + 1) 0
             (replicate 49 ?P @ [?P]) ?w2"
    using recursive_loc_retry[OF tr rt] sp by simp
  from full_pages[OF au st bd ed nx _ b2, of "''a''" "''b''" "[]" "[]" 3000 1000 1000
      "Some ''c''" "0 + 1" "[?P]" ?w2]
  obtain w3 where
    s3: "recursive_loc ''me'' ''a'' ''b'' [] [] 3000 1000 1000 (Some ''c'') (0 + 1) 0
             (replicate 49 ?P @ [?P]) ?w2
         = recursive_loc ''me'' ''a'' ''b'' [] [] 17700 5900 5900 (Some ''c'') 0 4900 [?P] w3"
    and r3: "requests_sent w3 = requests_sent ?w2 + 49"
    by (auto simp: ad)
  have co: "count_own ''me'' (edges ?h) (17700, 5900, 5900) = Some (18000, 6000, 6000)"
    using count_own_replicate[OF au, of 100 17700 5900 5900] by (simp add: ad)
  have ce: "4900 + length (edges ?h) \<ge> MAX_COMMITS_PER_REPO"
    by (simp add: MAX_COMMITS_PER_REPO_def)
  have ne: "edges ?h \<noteq> []" by simp
  let ?w4 = "emit (Truncated ''a'' ''b'') (emit (Fetch ''a'' ''b'' (Some ''c'') 4900) w3)"
  have s4: "recursive_loc ''me'' ''a'' ''b'' [] [] 17700 5900 5900 (Some ''c'') 0 4900 [?P] w3
            = (Returned (Loc 18000 6000 6000), [], ?w4)"
    unfolding recursive_loc_page[OF st bd] loc_counter_ceiling[OF co ne nx ce] ..
  have "requests_sent ?w = 0" by (simp add: requests_sent_def)
  with r1 r3 have "requests_sent ?w4 = 61" by simp
  moreover have "last (events ?w4) = Truncated ''a'' ''b''" by (simp add: emit_def)
  moreover have "recursive_loc ''me'' ''a'' ''b'' [] [] 0 0 0 None 0 0
           (replicate 10 ?P @ [example_failure 502] @ replicate 50 ?P) ?w
         = (Returned (Loc 18000 6000 6000), [], ?w4)"
    using s1 s2 s3 s4 by (simp only:)
  ultimately show ?thesis by (simp only: fst_conv snd_conv)
qed

section \<open>Merging the archive\<close>

lemma archive_slice:
  "slice_from (slice_upto ls (int (length ls) - 3)) 7 = drop 7 (take (length ls - 3) ls)"
proof (cases "3 \<le> length ls")
  case True
  then have "nat (int (length ls) - 3) = length ls - 3" by simp
  with True show ?thesis by (simp add: slice_from_def slice_upto_def)
next
  case False
  then have "length (slice_upto ls (int (length ls) - 3)) < 7"
    by (simp add: slice_upto_def)
  then have "slice_from (slice_upto ls (int (length ls) - 3)) 7 = []"
    by (simp add: slice_from_def)
  with False show ?thesis by simp
qed

lemma five_tokens:
  assumes "4 < length ts"
  shows "\<exists>t0 t1 t2 t3 t4 r. ts = t0 # t1 # t2 # t3 # t4 # r"
proof -
  from assms obtain t0 r0 where 0: "ts = t0 # r0" "3 < length r0" by (cases ts) auto
  then obtain t1 r1 where 1: "r0 = t1 # r1" "2 < length r1" by (cases r0) auto
  then obtain t2 r2 where 2: "r1 = t2 # r2" "1 < length r2" by (cases r1) auto
  then obtain t3 r3 where 3: "r2 = t3 # r3" "0 < length r3" by (cases r2) auto
  then obtain t4 r4 where 4: "r3 = t4 # r4" by (cases r3) auto
  from 0 1 2 3 4 show ?thesis by blast
qed

lemma archive_sum_ok:
  "list_all archive_line_ok data \<Longrightarrow>
   archive_sum data a d = Returned (a + field_sum 3 data, d + field_sum 4 data)"
proof (induction data arbitrary: a d)
  case Nil
  then show ?case by (simp add: field_sum_def)
next
  case (Cons l ls)
  from Cons.prems have ok: "archive_line_ok l" and rest: "list_all archive_line_ok ls" by auto
  from ok obtain t0 t1 t2 t3 t4 r where ts: "split_ws l = t0 # t1 # t2 # t3 # t4 # r"
    using five_tokens[of "split_ws l"] by (auto simp: archive_line_ok_def)
  from ok ts obtain x y where x: "py_int t3 = Some x" and y: "py_int t4 = Some y"
    by (auto simp: archive_line_ok_def)
  have fv: "field_value 3 l = x" "field_value 4 l = y"
    using ts x y by (simp_all add: field_value_def)
  show ?case
    using Cons.IH[OF rest, of "a + x" "d + y"] ts x y fv
    by (simp add: field_sum_def)
qed

lemma add_archive_missing: "add_archive None = (0, 0, 0, PyInt 0, 0)"
  by (simp add: add_archive_def add_archive_body_def)

lemma add_archive_raised:
  "add_archive_body archive = Raised x \<Longrightarrow> add_archive archive = (0, 0, 0, PyInt 0, 0)"
  by (simp add: add_archive_def)

lemma merge_zeros:
  assumes "add_archive archive = (0, 0, 0, PyInt 0, 0)"
  shows "merge_archive owner_id node_id archive st = Returned st"
proof (cases "total_loc st")
  case (fields t0 t1 t2 cached)
  then have "st\<lparr>total_loc := (t0, t1, t2, cached)\<rparr> = st" by (cases st) simp
  with assms fields show ?thesis
    by (simp add: merge_archive_def py_int_of_def)
qed

lemma add_archive_read:
  assumes "ls = readlines s" and "ls \<noteq> []"
      and "data = drop 7 (take (length ls - 3) ls)"
      and "list_all archive_line_ok data"
      and "4 < length (split_ws (last ls))"
  shows "add_archive (Some s)
         = (field_sum 3 data, field_sum 4 data, field_sum 3 data - field_sum 4 data,
            PyStr (butlast (split_ws (last ls) ! 4)), int (length data))"
  using assms archive_sum_ok[OF assms(4), of 0 0]
  by (simp add: add_archive_def add_archive_body_def archive_slice Let_def)

text \<open>
  C7, amended. For the user whose id is \<open>NODE_ID\<close> and an archive whose data lines (after
  the first 7 lines, before the last 3) have five fields with integers at the fourth and
  fifth place, the merge adds the sum of the fourth fields, the sum of the fifth fields and
  their difference to the three totals of lines, the number of data lines to the
  contributed repositories, and to the commits the integer that the fifth token of the last
  line gives once its last character is cut; stars, repositories, followers and the flag
  \<open>cached\<close> are as before. A missing archive, or one whose reading raises inside
  \<open>add_archive\<close>, changes nothing.
\<close>

theorem archive_merged_into_totals:
  assumes "Some owner_id = node_id"
  shows "(ls = readlines s \<and> ls \<noteq> [] \<and> data = drop 7 (take (length ls - 3) ls)
          \<and> list_all archive_line_ok data \<and> 4 < length (split_ws (last ls))
          \<and> py_int (butlast (split_ws (last ls) ! 4)) = Some c
          \<and> total_loc st = (t0, t1, t2, cached)
          \<longrightarrow> merge_archive owner_id node_id (Some s) st
              = Returned (st\<lparr>total_loc := (t0 + field_sum 3 data, t1 + field_sum 4 data,
                                           t2 + (field_sum 3 data - field_sum 4 data), cached),
                             contrib_data := contrib_data st + int (length data),
                             commit_data := commit_data st + c\<rparr>))
       \<and> merge_archive owner_id node_id None st = Returned st
       \<and> (add_archive_body archive = Raised x
          \<longrightarrow> merge_archive owner_id node_id archive st = Returned st)"
proof (intro conjI impI)
  assume a: "ls = readlines s \<and> ls \<noteq> [] \<and> data = drop 7 (take (length ls - 3) ls)
          \<and> list_all archive_line_ok data \<and> 4 < length (split_ws (last ls))
          \<and> py_int (butlast (split_ws (last ls) ! 4)) = Some c
          \<and> total_loc st = (t0, t1, t2, cached)"
  then have "add_archive (Some s)
         = (field_sum 3 data, field_sum 4 data, field_sum 3 data - field_sum 4 data,
            PyStr (butlast (split_ws (last ls) ! 4)), int (length data))"
    using add_archive_read[of ls s data] by blast
  moreover from a have "py_int (butlast (split_ws (last ls) ! 4)) = Some c"
    and "total_loc st = (t0, t1, t2, cached)"
    by blast+
  then have "py_int_of (PyStr (butlast (split_ws (last ls) ! 4))) = Some c"
    and "total_loc st = (t0, t1, t2, cached)"
    by (simp_all add: py_int_of_def)
  ultimately show "merge_archive owner_id node_id (Some s) st
              = Returned (st\<lparr>total_loc := (t0 + field_sum 3 data, t1 + field_sum 4 data,
                                           t2 + (field_sum 3 data - field_sum 4 data), cached),
                             contrib_data := contrib_data st + int (length data),
                             commit_data := commit_data st + c\<rparr>)"
    using assms by (simp add: merge_archive_def)
next
  show "merge_archive owner_id node_id None st = Returned st"
    by (rule merge_zeros[OF add_archive_missing])
next
  assume "add_archive_body archive = Raised x"
  then show "merge_archive owner_id node_id archive st = Returned st"
    by (intro merge_zeros add_archive_raised)
qed

text \<open>
  C7, as stated, fails: the fifth token of the last line of this archive is \<open>57\<close> (\<open>split\<close>
  has already dropped the line end), and the merge adds 5 to the commits: the code cuts the
  last character of the token.
\<close>

theorem archive_total_loses_last_digit:
  "split_ws (last (readlines example_archive)) ! 4 = ''57''
   \<and> merge_archive ''me'' (Some ''me'') (Some example_archive) example_stats
     = Returned \<lparr>total_loc = (1100, 440, 660, True), commit_data = 15, star_data = 1,
                 repo_data = 2, contrib_data = 7, follower_data = 3\<rparr>"
  by code_simp

text \<open>
  An instance: the example archive, no archive, and a file that is no archive.
\<close>

theorem archive_merged_into_totals_witness:
  "Some ''me'' = Some ''me''
   \<and> merge_archive ''me'' (Some ''me'') (Some example_archive) example_stats
     = Returned (example_stats\<lparr>total_loc := (1000 + 100, 400 + 40, 600 + (100 - 40), True),
                               contrib_data := contrib_data example_stats + 3,
                               commit_data := commit_data example_stats + 5\<rparr>)
   \<and> merge_archive ''me'' (Some ''me'') None example_stats = Returned example_stats
   \<and> add_archive_body (Some ''no archive'') = Raised IndexError
   \<and> merge_archive ''me'' (Some ''me'') (Some ''no archive'') example_stats = Returned example_stats"
proof -
  let ?ls = "readlines example_archive"
  let ?data = "[''0a 9 2 60 30'' @ [newline], ''0b 8 1 40 10'' @ [newline], ''0c 1 1 0 0'' @ [newline]]"
  have h: "Some ''me'' = Some ''me''" by simp
  have p: "?ls = readlines example_archive \<and> ?ls \<noteq> []
          \<and> ?data = drop 7 (take (length ?ls - 3) ?ls)
          \<and> list_all archive_line_ok ?data \<and> 4 < length (split_ws (last ?ls))
          \<and> py_int (butlast (split_ws (last ?ls) ! 4)) = Some 5
          \<and> total_loc example_stats = (1000, 400, 600, True)"
    by code_simp
  have f: "field_sum 3 ?data = 100" "field_sum 4 ?data = 40" "int (length ?data) = 3"
    by code_simp+
  have r: "add_archive_body (Some ''no archive'') = Raised IndexError" by code_simp
  note T = archive_merged_into_totals[OF h, where st=example_stats and ls="?ls"
      and s=example_archive and data="?data" and c=5 and ?t0.0=1000 and ?t1.0=400 and ?t2.0=600
      and cached=True and archive="Some ''no archive''" and x=IndexError]
  from T[THEN conjunct1, rule_format, OF p]
  have 1: "merge_archive ''me'' (Some ''me'') (Some example_archive) example_stats
     = Returned (example_stats\<lparr>total_loc := (1000 + 100, 400 + 40, 600 + (100 - 40), True),
                               contrib_data := contrib_data example_stats + 3,
                               commit_data := commit_data example_stats + 5\<rparr>)"
    unfolding f .
  from T[THEN conjunct2, THEN conjunct1]
  have 2: "merge_archive ''me'' (Some ''me'') None example_stats = Returned example_stats" .
  from T[THEN conjunct2, THEN conjunct2, rule_format, OF r]
  have 3: "merge_archive ''me'' (Some ''me'') (Some ''no archive'') example_stats
           = Returned example_stats" .
  from h 1 2 3 r show ?thesis by blast
qed

section \<open>Tokens and decimal numbers\<close>

lemma split_aux_tokens:
  "list_all (\<lambda>c. \<not> is_space c) tok \<Longrightarrow> t \<in> set (split_aux tok s)
   \<Longrightarrow> t \<noteq> [] \<and> list_all (\<lambda>c. \<not> is_space c) t"
proof (induction s arbitrary: tok)
  case Nil
  then show ?case by (auto split: if_splits)
next
  case (Cons c s)
  show ?case
  proof (cases "is_space c")
    case True
    with Cons.prems Cons.IH[of "[]"] show ?thesis by (auto split: if_splits)
  next
    case False
    with Cons.prems Cons.IH[of "tok @ [c]"] show ?thesis by auto
  qed
qed

lemma split_ws_tokens:
  "t \<in> set (split_ws s) \<Longrightarrow> t \<noteq> [] \<and> list_all (\<lambda>c. \<not> is_space c) t"
  unfolding split_ws_def using split_aux_tokens[of "[]" t s] by simp

lemma digit_char_table:
  "list_all (\<lambda>n. is_digit (digit_char n) \<and> digit_val (digit_char n) = n
                 \<and> \<not> is_space (digit_char n) \<and> digit_char n \<noteq> CHR ''-''
                 \<and> digit_char n \<noteq> CHR ''+'' \<and> digit_char n \<noteq> CHR ''_'') [0..<10]"
  by code_simp

lemma digit_char_props:
  assumes "n < 10"
  shows "is_digit (digit_char n)" and "digit_val (digit_char n) = n"
    and "\<not> is_space (digit_char n)" and "digit_char n \<noteq> CHR ''-''" and "digit_char n \<noteq> CHR ''+''"
    and "digit_char n \<noteq> CHR ''_''"
proof -
  from assms have "n \<in> set [0..<10]" by simp
  with digit_char_table
  have "is_digit (digit_char n) \<and> digit_val (digit_char n) = n
                 \<and> \<not> is_space (digit_char n) \<and> digit_char n \<noteq> CHR ''-''
                 \<and> digit_char n \<noteq> CHR ''+'' \<and> digit_char n \<noteq> CHR ''_''"
    unfolding list_all_iff by blast
  then show "is_digit (digit_char n)" and "digit_val (digit_char n) = n"
    and "\<not> is_space (digit_char n)" and "digit_char n \<noteq> CHR ''-''" and "digit_char n \<noteq> CHR ''+''"
    and "digit_char n \<noteq> CHR ''_''"
    by blast+
qed

lemma str_nat_chars:
  "str_nat n \<noteq> [] \<and> (\<forall>c \<in> set (str_nat n). is_digit c \<and> \<not> is_space c \<and> c \<noteq> CHR ''-'' \<and> c \<noteq> CHR ''+'')"
proof (induction n rule: str_nat.induct)
  case (1 n)
  show ?case
  proof (cases "n < 10")
    case True
    then show ?thesis using digit_char_props[OF True] by (subst (1 2) str_nat.simps) simp
  next
    case False
    have "n mod 10 < 10" by simp
    from digit_char_props[OF this] "1.IH"[OF False] False
    show ?thesis by (subst (1 2) str_nat.simps) auto
  qed
qed

lemma parse_str_nat:
  "parse_digits acc b (str_nat n @ s) = parse_digits (acc * 10 ^ length (str_nat n) + n) True s"
proof (induction n arbitrary: acc b s rule: str_nat.induct)
  case (1 n)
  show ?case
  proof (cases "n < 10")
    case True
    then have e: "str_nat n = [digit_char n]" by (subst str_nat.simps) simp
    show ?thesis unfolding e using digit_char_props[OF True] by (simp add: mult.commute)
  next
    case False
    have r: "n mod 10 < 10" by simp
    have e: "str_nat n = str_nat (n div 10) @ [digit_char (n mod 10)]"
      using False by (subst str_nat.simps) simp
    have "parse_digits acc b (str_nat n @ s)
          = parse_digits acc b (str_nat (n div 10) @ (digit_char (n mod 10) # s))"
      unfolding e by simp
    also have "\<dots> = parse_digits (acc * 10 ^ length (str_nat (n div 10)) + n div 10) True
                       (digit_char (n mod 10) # s)"
      by (rule "1.IH"[OF False])
    also have "\<dots> = parse_digits (10 * (acc * 10 ^ length (str_nat (n div 10)) + n div 10)
                                    + n mod 10) True s"
      using digit_char_props[OF r] by simp
    also have "10 * (acc * 10 ^ length (str_nat (n div 10)) + n div 10) + n mod 10
               = acc * 10 ^ length (str_nat n) + n"
      unfolding e by (simp add: algebra_simps)
    finally show ?thesis .
  qed
qed

lemma py_int_str: "py_int (py_str i) = Some i"
proof -
  have nat_case: "\<And>n. py_int (str_nat n) = Some (int n)"
  proof -
    fix n
    obtain c cs where e: "str_nat n = c # cs" using str_nat_chars[of n] by (cases "str_nat n") auto
    then have "c \<noteq> CHR ''-''" "c \<noteq> CHR ''+''" using str_nat_chars[of n] by auto
    moreover have "parse_digits 0 False (str_nat n) = Some n"
      using parse_str_nat[of 0 False n "[]"] by simp
    ultimately show "py_int (str_nat n) = Some (int n)"
      using e by (simp add: py_int_def)
  qed
  show ?thesis
  proof (cases "i < 0")
    case True
    have "parse_digits 0 False (str_nat (nat (- i))) = Some (nat (- i))"
      using parse_str_nat[of 0 False "nat (- i)" "[]"] by simp
    with True show ?thesis by (simp add: py_str_def py_int_def)
  next
    case False
    with nat_case[of "nat i"] show ?thesis by (simp add: py_str_def)
  qed
qed

lemma py_str_word: "py_str i \<noteq> [] \<and> list_all (\<lambda>c. \<not> is_space c) (py_str i)"
  using str_nat_chars[of "nat i"] str_nat_chars[of "nat (- i)"]
  by (auto simp: py_str_def list_all_iff is_space_def)

section \<open>The flag and the second run\<close>

lemma count_own_clean:
  "list_all (\<lambda>n. author n \<noteq> None) ns \<Longrightarrow> count_own oid ns acc \<noteq> None"
proof (induction ns arbitrary: acc)
  case Nil
  then show ?case by simp
next
  case (Cons n ns)
  obtain a d m where acc: "acc = (a, d, m)" by (cases acc) auto
  from Cons.prems obtain u where u: "author n = Some u" by auto
  from Cons.prems have "list_all (\<lambda>n. author n \<noteq> None) ns" by simp
  from Cons.IH[OF this] show ?case unfolding acc using u by simp
qed

lemma reducer_clean:
  "recursive_loc oid owner repo data cc a d m cursor rc cf remote w = (out, remote', w')
     \<Longrightarrow> list_all clean_response remote
     \<Longrightarrow> out \<noteq> Returned Zero \<and> out \<noteq> Raised TypeError \<and> list_all clean_response remote'"
  "loc_counter_one_repo oid owner repo data cc h a d m cf remote w = (out, remote', w')
     \<Longrightarrow> list_all clean_response remote \<Longrightarrow> list_all (\<lambda>n. author n \<noteq> None) (edges h)
     \<Longrightarrow> out \<noteq> Returned Zero \<and> out \<noteq> Raised TypeError \<and> list_all clean_response remote'"
proof (induction oid owner repo data cc a d m cursor rc cf remote w
        and oid owner repo data cc h a d m cf remote w
        arbitrary: out remote' w' and out remote' w'
        rule: recursive_loc_loc_counter_one_repo.induct)
  case (1 oid owner repo data cc a d m cursor rc cf w)
  then show ?case by (simp add: recursive_loc_Nil)
next
  case (2 oid owner repo data cc a d m cursor rc cf request remote w)
  from "2.prems"(2) have cr: "clean_response request" and cl: "list_all clean_response remote"
    by auto
  show ?case
  proof (cases "status_code request = 200")
    case True
    with cr obtain h where b: "body request = Commits h"
      and au: "list_all (\<lambda>n. author n \<noteq> None) (edges h)"
      by (auto simp: clean_response_def split: payload.splits)
    from "2.prems"(1) have "loc_counter_one_repo oid owner repo data cc h a d m cf remote
             (emit (Fetch owner repo cursor cf) w) = (out, remote', w')"
      by (simp add: recursive_loc_page[OF True b])
    from "2.IH"(1)[OF refl True b this cl au] show ?thesis .
  next
    case False
    show ?thesis
    proof (cases "status_code request \<in> TRANSIENT_ERROR_CODES \<and> rc < MAX_RETRIES")
      case True
      then have t: "status_code request \<in> TRANSIENT_ERROR_CODES" and r: "rc < MAX_RETRIES"
        by auto
      from "2.prems"(1) have "recursive_loc oid owner repo data cc a d m cursor (rc + 1) 0 remote
             (emit (Sleep (RETRY_DELAY_BASE * 2 ^ rc)) (emit (Fetch owner repo cursor cf) w))
             = (out, remote', w')"
        by (simp add: recursive_loc_retry[OF t r])
      from "2.IH"(2)[OF refl False True this cl] show ?thesis .
    next
      case F2: False
      from "2.prems"(1) cl show ?thesis
        by (auto simp add: recursive_loc_fail[OF False F2] split: if_splits)
    qed
  qed
next
  case (3 oid owner repo data cc h a d m cf remote w)
  from count_own_clean[OF "3.prems"(3), of oid "(a, d, m)"]
  obtain a1 d1 m1 where co: "count_own oid (edges h) (a, d, m) = Some (a1, d1, m1)"
    by (cases "count_own oid (edges h) (a, d, m)") auto
  show ?case
  proof (cases "edges h = [] \<or> \<not> hasNextPage h")
    case True
    with co "3.prems" show ?thesis by (auto simp add: loc_counter_last)
  next
    case False
    show ?thesis
    proof (cases "cf + length (edges h) \<ge> MAX_COMMITS_PER_REPO")
      case True
      with False co "3.prems" show ?thesis by (auto simp add: loc_counter_ceiling)
    next
      case F3: False
      from "3.prems"(1) False F3 co
      have "recursive_loc oid owner repo data cc a1 d1 m1 (endCursor h) 0 (cf + length (edges h))
              remote w = (out, remote', w')"
        by (simp add: loc_counter_next)
      from "3.IH"[OF refl co refl refl False F3 this "3.prems"(2)]
      show ?thesis .
    qed
  qed
qed

lemma space_char: "is_space (CHR '' '')"
  by (simp add: is_space_def)

lemma terminated_words:
  assumes "list_all (\<lambda>c. \<not> is_space c) b"
  shows "terminated (b @ [newline])"
proof -
  have "newline \<notin> set b" using assms space_newline by (auto simp: list_all_iff)
  then show ?thesis by (simp add: terminated_def)
qed

lemma updated_line:
  assumes "h \<noteq> []" and "list_all (\<lambda>c. \<not> is_space c) h"
  shows "\<exists>rest. split_ws (h @ '' '' @ py_str t @ '' '' @ py_str m @ '' '' @ py_str a @ '' ''
                          @ py_str d @ [newline]) = h # py_str t # rest"
    and "terminated (h @ '' '' @ py_str t @ '' '' @ py_str m @ '' '' @ py_str a @ '' ''
                     @ py_str d @ [newline])"
proof -
  let ?r = "py_str m @ '' '' @ py_str a @ '' '' @ py_str d @ [newline]"
  have "split_ws (h @ CHR '' '' # (py_str t @ CHR '' '' # ?r)) = h # split_ws (py_str t @ CHR '' '' # ?r)"
    by (rule split_ws_token_space[OF assms space_char])
  moreover have "split_ws (py_str t @ CHR '' '' # ?r) = py_str t # split_ws ?r"
    using py_str_word[of t] by (intro split_ws_token_space space_char) auto
  ultimately show "\<exists>rest. split_ws (h @ '' '' @ py_str t @ '' '' @ py_str m @ '' '' @ py_str a @ '' ''
                          @ py_str d @ [newline]) = h # py_str t # rest"
    by simp
  have nl: "\<And>s. list_all (\<lambda>c. \<not> is_space c) s \<Longrightarrow> newline \<notin> set s"
    using space_newline by (auto simp: list_all_iff)
  have "newline \<notin> set h" "newline \<notin> set (py_str t)" "newline \<notin> set (py_str m)"
    "newline \<notin> set (py_str a)" "newline \<notin> set (py_str d)"
    using nl[OF assms(2)] nl[of "py_str t"] nl[of "py_str m"] nl[of "py_str a"] nl[of "py_str d"]
      py_str_word by blast+
  then show "terminated (h @ '' '' @ py_str t @ '' '' @ py_str m @ '' '' @ py_str a @ '' ''
                     @ py_str d @ [newline])"
    by (simp add: terminated_def butlast_append newline_def)
qed

lemma py_int_zero: "py_int ''0'' = Some 0"
  by code_simp

lemma refresh_line_clean:
  assumes "refresh_line oid cc i e hs c data remote w = (out, remote', w')"
      and "list_all clean_response remote"
  shows "list_all clean_response remote'"
    and "out = Raised TypeError \<Longrightarrow> totalCount e = None \<and> py_int c \<noteq> None"
    and "out = Returned d' \<Longrightarrow>
           \<exists>t. totalCount e = Some t
              \<and> (py_int c = Some t \<and> d' = data
                 \<or> (\<exists>a d m. d' = data[i := hs @ '' '' @ py_str t @ '' '' @ py_str m @ '' ''
                                            @ py_str a @ '' '' @ py_str d @ [newline]]))"
proof -
  have rc: "\<And>owner repo o2. recursive_loc oid owner repo data cc 0 0 0 None 0 0 remote w = (o2, remote', w')
       \<Longrightarrow> o2 \<noteq> Returned Zero \<and> o2 \<noteq> Raised TypeError \<and> list_all clean_response remote'"
    using reducer_clean(1)[OF _ assms(2)] by blast
  from assms show "list_all clean_response remote'"
    by (auto simp: refresh_line_def split: option.splits if_splits list.splits prod.splits
                   outcome.splits loc.splits dest: rc)
  from assms show "out = Raised TypeError \<Longrightarrow> totalCount e = None \<and> py_int c \<noteq> None"
    by (auto simp: refresh_line_def split: option.splits if_splits list.splits prod.splits
                   outcome.splits loc.splits dest: rc)
  from assms show "out = Returned d' \<Longrightarrow>
           \<exists>t. totalCount e = Some t
              \<and> (py_int c = Some t \<and> d' = data
                 \<or> (\<exists>a d m. d' = data[i := hs @ '' '' @ py_str t @ '' '' @ py_str m @ '' ''
                                            @ py_str a @ '' '' @ py_str d @ [newline]]))"
    by (auto simp: refresh_line_def split: option.splits if_splits list.splits prod.splits
                   outcome.splits loc.splits)
qed

lemma cache_step_settles:
  assumes "cache_step digest oid cc i e data remote w = (Returned d', remote', w')"
      and "list_all clean_response remote"
  shows "list_all clean_response remote' \<and> i < length data \<and> settled digest e (d' ! i)
         \<and> (d' = data \<or> (\<exists>l. terminated l \<and> d' = data[i := l]))"
proof -
  from assms(1) have il: "i < length data"
    by (auto simp: cache_step_def split: if_splits)
  from assms(1) il obtain h c rest where ts: "split_ws (data ! i) = h # c # rest"
    by (auto simp: cache_step_def split: list.splits)
  have "h \<in> set (split_ws (data ! i))" using ts by simp
  from split_ws_tokens[OF this] have hw: "h \<noteq> []" "list_all (\<lambda>c. \<not> is_space c) h" by auto
  show ?thesis
  proof (cases "h = digest (nameWithOwner e)")
    case False
    with assms il ts show ?thesis by (auto simp: cache_step_def settled_def)
  next
    case True
    obtain out r1 w1 where rl: "refresh_line oid cc i e h c data remote w = (out, r1, w1)"
      by (cases "refresh_line oid cc i e h c data remote w") auto
    note cl = refresh_line_clean[OF rl assms(2)]
    show ?thesis
    proof (cases "out = Raised TypeError")
      case T: True
      with assms(1) il ts True rl
      have d': "d' = data[i := h @ zero_fields]" and r: "remote' = r1"
        by (auto simp: cache_step_def)
      from cl(2)[OF T] have tc: "totalCount e = None" by simp
      have "settled digest e (h @ zero_fields)"
        using split_ws_zero_line[OF hw] tc py_int_zero by (simp add: settled_def)
      moreover have "terminated (h @ zero_fields)" by (rule zero_line_terminated[OF hw(2)])
      ultimately show ?thesis using d' r cl(1) il by auto
    next
      case F: False
      with assms(1) il ts True rl
      have o: "out = Returned d'" and r: "remote' = r1"
        by (auto simp: cache_step_def split: outcome.splits exn.splits)
      from cl(3)[OF o] obtain t where t: "totalCount e = Some t"
        and alt: "py_int c = Some t \<and> d' = data
                 \<or> (\<exists>a d m. d' = data[i := h @ '' '' @ py_str t @ '' '' @ py_str m @ '' ''
                                            @ py_str a @ '' '' @ py_str d @ [newline]])"
        by blast
      from alt show ?thesis
      proof
        assume "py_int c = Some t \<and> d' = data"
        with ts True t r cl(1) il show ?thesis by (auto simp: settled_def)
      next
        assume "\<exists>a d m. d' = data[i := h @ '' '' @ py_str t @ '' '' @ py_str m @ '' ''
                                            @ py_str a @ '' '' @ py_str d @ [newline]]"
        then obtain a d m where d': "d' = data[i := h @ '' '' @ py_str t @ '' '' @ py_str m @ '' ''
                                            @ py_str a @ '' '' @ py_str d @ [newline]]"
          by blast
        let ?l = "h @ '' '' @ py_str t @ '' '' @ py_str m @ '' '' @ py_str a @ '' ''
                   @ py_str d @ [newline]"
        from updated_line[OF hw, of t m a d] obtain rest' where
          sp: "split_ws ?l = h # py_str t # rest'" and te: "terminated ?l" by blast
        have "settled digest e ?l" using sp t py_int_str[of t] by (simp add: settled_def)
        with te d' r cl(1) il show ?thesis by auto
      qed
    qed
  qed
qed

lemma cache_step_fixed:
  assumes "i < length data" and "settled digest e (data ! i)"
  shows "cache_step digest oid cc i e data remote w = (Returned data, remote, w)"
proof -
  from assms(2) obtain h c rest where ts: "split_ws (data ! i) = h # c # rest"
    by (auto simp: settled_def split: list.splits)
  show ?thesis
  proof (cases "h = digest (nameWithOwner e)")
    case False
    with assms ts show ?thesis by (simp add: cache_step_def)
  next
    case True
    show ?thesis
    proof (cases "totalCount e")
      case None
      with assms(2) ts True obtain k where k: "py_int c = Some k" and l: "data ! i = h @ zero_fields"
        by (auto simp: settled_def)
      from l have "data[i := h @ zero_fields] = data" by (metis list_update_id)
      with assms(1) ts True None k show ?thesis
        by (simp add: cache_step_def refresh_line_def)
    next
      case (Some t)
      with assms(2) ts True have "py_int c = Some t" by (auto simp: settled_def)
      with assms(1) ts True Some show ?thesis
        by (simp add: cache_step_def refresh_line_def)
    qed
  qed
qed

lemma cache_loop_settles:
  assumes "cache_loop digest oid cc i es data remote w = (Returned data', remote', w')"
      and "list_all clean_response remote"
      and "\<forall>l \<in> set data. terminated l"
  shows "(\<forall>l \<in> set data'. terminated l) \<and> length data' = length data
         \<and> (es = [] \<or> i + length es \<le> length data')
         \<and> (\<forall>k < length es. settled digest (es ! k) (data' ! (i + k)))"
  using assms
proof (induction es arbitrary: i data remote w)
  case Nil
  then show ?case by simp
next
  case (Cons e es)
  obtain out r1 w1 where st: "cache_step digest oid cc i e data remote w = (out, r1, w1)"
    by (cases "cache_step digest oid cc i e data remote w") auto
  with Cons.prems(1) obtain d1 where out: "out = Returned d1" by (cases out) auto
  from st out Cons.prems(1)
  have lp: "cache_loop digest oid cc (i + 1) es d1 r1 w1 = (Returned data', remote', w')" by simp
  from cache_step_settles[OF st[unfolded out] Cons.prems(2)]
  have c1: "list_all clean_response r1" and il: "i < length data"
    and s1: "settled digest e (d1 ! i)"
    and alt: "d1 = data \<or> (\<exists>l. terminated l \<and> d1 = data[i := l])"
    by auto
  from alt Cons.prems(3) have t1: "\<forall>l \<in> set d1. terminated l"
    by (auto dest: set_update_subset_insert[THEN subsetD])
  from alt have l1: "length d1 = length data" by auto
  from Cons.IH[OF lp c1 t1]
  have ih: "\<forall>l \<in> set data'. terminated l" "length data' = length d1"
    "es = [] \<or> i + 1 + length es \<le> length data'"
    "\<forall>k < length es. settled digest (es ! k) (data' ! (i + 1 + k))"
    by auto
  from cache_loop_frame[OF lp] have keep: "data' ! i = d1 ! i" by simp
  have "\<forall>k < length (e # es). settled digest ((e # es) ! k) (data' ! (i + k))"
  proof (intro allI impI)
    fix k assume k: "k < length (e # es)"
    show "settled digest ((e # es) ! k) (data' ! (i + k))"
    proof (cases k)
      case 0
      with s1 keep show ?thesis by simp
    next
      case (Suc j)
      with k ih(4) show ?thesis by simp
    qed
  qed
  moreover have "i + length (e # es) \<le> length data'"
    using ih(2,3) l1 il by auto
  ultimately show ?case using ih l1 by simp
qed

lemma cache_loop_fixed:
  assumes "\<forall>k < length es. settled digest (es ! k) (data ! (i + k))"
      and "i + length es \<le> length data"
  shows "cache_loop digest oid cc i es data remote w = (Returned data, remote, w)"
  using assms
proof (induction es arbitrary: i)
  case Nil
  then show ?case by simp
next
  case (Cons e es)
  from Cons.prems have il: "i < length data" and s0: "settled digest e (data ! i)"
    by auto
  have "\<forall>k < length es. settled digest (es ! k) (data ! (i + 1 + k))"
  proof (intro allI impI)
    fix k assume "k < length es"
    then have "Suc k < length (e # es)" by simp
    from Cons.prems(1)[rule_format, OF this] show "settled digest (es ! k) (data ! (i + 1 + k))"
      by simp
  qed
  moreover have "i + 1 + length es \<le> length data" using Cons.prems(2) by simp
  ultimately have "cache_loop digest oid cc (i + 1) es data remote w = (Returned data, remote, w)"
    by (rule Cons.IH)
  with cache_step_fixed[OF il s0] show ?case by simp
qed

lemma ledger_lines_terminated:
  assumes "ledger_ok comment_size (readlines s0)"
  shows "\<forall>l \<in> set (readlines s0). terminated l"
proof
  fix l assume m: "l \<in> set (readlines s0)"
  from assms m have "last l = newline" by (auto simp: ledger_ok_def list_all_iff)
  moreover from m readlines_nonempty[of s0] have "l \<noteq> []" by auto
  moreover from m have "newline \<notin> set (butlast l)" by (rule readlines_inner)
  ultimately show "terminated l" by (simp add: terminated_def)
qed

lemma ledger_ok_header: "ledger_ok comment_size ls \<Longrightarrow> header_ok comment_size ls"
  by (auto simp: ledger_ok_def header_ok_def list_all_iff dest: in_set_takeD)

lemma cache_prepare_shape:
  assumes "ledger_ok comment_size (fst (read_cache comment_size w))"
      and "digest_ok digest es"
  shows "\<exists>ls s1. cache_prepare digest es comment_size force_cache w
           = (Returned (\<not> (int (length (fst (read_cache comment_size w))) - comment_size
                              \<noteq> int (length es) \<or> force_cache),
                        take (nat comment_size) ls, drop (nat comment_size) ls),
              w\<lparr>ledger_file := Some s1\<rparr>)
         \<and> (\<forall>l \<in> set ls. terminated l) \<and> length ls = nat comment_size + length es"
proof -
  obtain s0 where s0: "ledger_file (snd (read_cache comment_size w)) = Some s0"
      and r0: "readlines s0 = fst (read_cache comment_size w)"
      and w0: "snd (read_cache comment_size w) = w\<lparr>ledger_file := Some s0\<rparr>"
    using read_cache_file by blast
  let ?lines = "fst (read_cache comment_size w)"
  have rc: "read_cache comment_size w = (?lines, snd (read_cache comment_size w))" by simp
  have ok: "ledger_ok comment_size (readlines s0)" using assms(1) r0 by simp
  have nn: "0 \<le> comment_size" and le: "nat comment_size \<le> length ?lines"
    using assms(1) by (auto simp: ledger_ok_def)
  show ?thesis
  proof (cases "int (length ?lines) - comment_size \<noteq> int (length es) \<or> force_cache")
    case True
    let ?hd = "take (nat comment_size) ?lines"
    let ?zl = "map (\<lambda>node. digest (nameWithOwner node) @ zero_fields) es"
    from flush_cache_lines[OF s0 ledger_ok_header[OF ok] assms(2)] r0 obtain s1 where
      fl: "flush_cache digest es comment_size (snd (read_cache comment_size w))
           = (Returned (), (snd (read_cache comment_size w))\<lparr>ledger_file := Some s1\<rparr>)"
      and rl: "readlines s1 = ?hd @ ?zl"
      by auto
    have len: "length ?hd = nat comment_size" using le by simp
    have up: "slice_upto (?hd @ ?zl) comment_size = take (nat comment_size) (?hd @ ?zl)"
      and fr: "slice_from (?hd @ ?zl) comment_size = drop (nat comment_size) (?hd @ ?zl)"
      using nn by (simp_all add: slice_upto_def slice_from_def del: map_map)
    have te: "\<forall>l \<in> set (?hd @ ?zl). terminated l"
      using ledger_lines_terminated[OF ok] r0 zero_lines_terminated[OF assms(2)]
      by (auto dest: in_set_takeD)
    have "cache_prepare digest es comment_size force_cache w
          = (Returned (False, take (nat comment_size) (?hd @ ?zl), drop (nat comment_size) (?hd @ ?zl)),
             w\<lparr>ledger_file := Some s1\<rparr>)"
      unfolding cache_prepare_def
      apply (subst rc)
      using True fl rl up fr w0
      by (simp del: map_map take_append drop_append)
    moreover have "length (?hd @ ?zl) = nat comment_size + length es" using len by simp
    ultimately have "cache_prepare digest es comment_size force_cache w
           = (Returned (\<not> (int (length ?lines) - comment_size \<noteq> int (length es) \<or> force_cache),
                        take (nat comment_size) (?hd @ ?zl), drop (nat comment_size) (?hd @ ?zl)),
              w\<lparr>ledger_file := Some s1\<rparr>)
         \<and> (\<forall>l \<in> set (?hd @ ?zl). terminated l)
         \<and> length (?hd @ ?zl) = nat comment_size + length es"
      using True te by simp
    then show ?thesis by (intro exI[of _ "?hd @ ?zl"] exI[of _ s1])
  next
    case False
    then have cnt: "int (length ?lines) - comment_size = int (length es)" and nf: "\<not> force_cache"
      by auto
    have up: "slice_upto ?lines comment_size = take (nat comment_size) ?lines"
      and fr: "slice_from ?lines comment_size = drop (nat comment_size) ?lines"
      using nn by (simp_all add: slice_upto_def slice_from_def)
    have "cache_prepare digest es comment_size force_cache w
          = (Returned (True, take (nat comment_size) ?lines, drop (nat comment_size) ?lines),
             w\<lparr>ledger_file := Some s0\<rparr>)"
      unfolding cache_prepare_def
      apply (subst rc)
      using False up fr w0
      by simp
    moreover have "length ?lines = nat comment_size + length es" using cnt nn le by linarith
    moreover have "\<forall>l \<in> set ?lines. terminated l"
      using ledger_lines_terminated[OF ok] r0 by simp
    ultimately have "cache_prepare digest es comment_size force_cache w
           = (Returned (\<not> (int (length ?lines) - comment_size \<noteq> int (length es) \<or> force_cache),
                        take (nat comment_size) ?lines, drop (nat comment_size) ?lines),
              w\<lparr>ledger_file := Some s0\<rparr>)
         \<and> (\<forall>l \<in> set ?lines. terminated l)
         \<and> length ?lines = nat comment_size + length es"
      using False by simp
    then show ?thesis by (intro exI[of _ ?lines] exI[of _ s0])
  qed
qed

lemma cache_prepare_fixed:
  assumes "ledger_file w = Some (writelines cc @ writelines data)"
      and "\<forall>l \<in> set (cc @ data). terminated l"
      and "0 \<le> comment_size" and "length cc = nat comment_size" and "length data = length es"
  shows "cache_prepare digest es comment_size False w = (Returned (True, cc, data), w)"
proof -
  from readlines_concat[OF assms(2), of "[]"]
  have rl: "readlines (writelines cc @ writelines data) = cc @ data"
    by (simp add: writelines_def)
  have rc: "read_cache comment_size w = (cc @ data, w)"
    using assms(1) rl by (simp add: read_cache_def)
  have "int (length (cc @ data)) - comment_size = int (length es)"
    using assms(3,4,5) by simp
  moreover have "slice_upto (cc @ data) comment_size = cc" "slice_from (cc @ data) comment_size = data"
    using assms(3,4) by (simp_all add: slice_upto_def slice_from_def)
  ultimately show ?thesis
    unfolding cache_prepare_def rc by simp
qed

text \<open>
  C1, amended. A run of \<open>cache_builder\<close> that returns has \<open>cached\<close> True exactly when the
  cache was not flushed, that is when the number of data lines was the number of
  repositories and \<open>force_cache\<close> was not set, whether or not lines were refreshed. A second
  run on the world the first run left, with the same enumeration and no \<open>force_cache\<close>,
  consumes no response, leaves file and events as they are and returns the same totals
  with \<open>cached\<close> True. The ledger is well-formed (\<open>ledger_ok\<close>), so is the digest, and no
  history response of the first run reported a missing repository, a null branch or a
  commit without author.
\<close>

theorem cached_flag_and_second_run:
  assumes "cache_builder digest oid es comment_size force_cache loc_add loc_del remote w
           = (Returned (la, ld, net, cached), remote1, w1)"
      and "ledger_ok comment_size (fst (read_cache comment_size w))"
      and "digest_ok digest es"
      and "list_all clean_response remote"
  shows "cached = (\<not> (int (length (fst (read_cache comment_size w))) - comment_size
                        \<noteq> int (length es) \<or> force_cache))
       \<and> cache_builder digest oid es comment_size False loc_add loc_del remote2 w1
         = (Returned (la, ld, net, True), remote2, w1)"
proof -
  from cache_builder_returned[OF assms(1)] obtain cc data w0 data' w2 where
    pr: "cache_prepare digest es comment_size force_cache w = (Returned (cached, cc, data), w0)"
    and lp: "cache_loop digest oid cc 0 es data remote w0 = (Returned data', remote1, w2)"
    and sm: "sum_loc data' loc_add loc_del = Returned (la, ld)" and net: "net = la - ld"
    and w1: "w1 = w2\<lparr>ledger_file := Some (writelines cc @ writelines data')\<rparr>"
    by blast
  from cache_prepare_shape[OF assms(2,3), of force_cache] pr obtain ls where
    flag: "cached = (\<not> (int (length (fst (read_cache comment_size w))) - comment_size
                        \<noteq> int (length es) \<or> force_cache))"
    and cc: "cc = take (nat comment_size) ls" and data: "data = drop (nat comment_size) ls"
    and te: "\<forall>l \<in> set ls. terminated l" and len: "length ls = nat comment_size + length es"
    by auto
  have nn: "0 \<le> comment_size" using assms(2) by (simp add: ledger_ok_def)
  have td: "\<forall>l \<in> set data. terminated l" using te data by (auto dest: in_set_dropD)
  have tc: "\<forall>l \<in> set cc. terminated l" using te cc by (auto dest: in_set_takeD)
  from cache_loop_settles[OF lp assms(4) td]
  have t': "\<forall>l \<in> set data'. terminated l" and l': "length data' = length data"
    and st: "\<forall>k < length es. settled digest (es ! k) (data' ! (0 + k))"
    by auto
  have ld: "length data = length es" using data len by simp
  have lc: "length cc = nat comment_size" using cc len by simp
  have f1: "ledger_file w1 = Some (writelines cc @ writelines data')" using w1 by simp
  have tall: "\<forall>l \<in> set (cc @ data'). terminated l" using tc t' by auto
  have p2: "cache_prepare digest es comment_size False w1 = (Returned (True, cc, data'), w1)"
    using cache_prepare_fixed[OF f1 tall nn lc] l' ld by simp
  have "0 + length es \<le> length data'" using l' ld by simp
  from cache_loop_fixed[OF st this]
  have l2: "cache_loop digest oid cc 0 es data' remote2 w1 = (Returned data', remote2, w1)" .
  have same: "w1\<lparr>ledger_file := Some (writelines cc @ writelines data')\<rparr> = w1"
    using f1 by (cases w1) simp
  have "cache_builder digest oid es comment_size False loc_add loc_del remote2 w1
         = (Returned (la, ld, net, True), remote2, w1)"
    by (simp add: cache_builder_def p2 l2 sm net same)
  with flag show ?thesis by blast
qed

text \<open>
  C1, as stated, fails: the ledger has one line per repository and no refresh is forced,
  both lines are out of date (stored counts 3 and 4, remote counts 5 and 7) and are
  refreshed by two requests, and the flag returned is True.
\<close>

theorem refreshed_run_reports_cached:
  "int (length (fst (read_cache 1 example_world))) - 1 = int (length example_repos)
   \<and> split_ws (example_ledger ! 0) ! 1 = ''3'' \<and> totalCount (example_repos ! 0) = Some 5
   \<and> split_ws (example_ledger ! 1) ! 1 = ''4'' \<and> totalCount (example_repos ! 1) = Some 7
   \<and> cache_builder hex_digest ''me'' example_repos 1 False 0 0
        [example_page 2 False, example_page 1 False] example_world
     = (Returned (9, 3, 6, True), [], example_refreshed_world)"
  by code_simp

text \<open>
  An instance: the run that refreshes both lines, and a second run on what it left.
\<close>

theorem cached_flag_and_second_run_witness:
  "cache_builder hex_digest ''me'' example_repos 1 False 0 0
        [example_page 2 False, example_page 1 False] example_world
     = (Returned (9, 3, 6, True), [], example_refreshed_world)
   \<and> ledger_ok 1 (fst (read_cache 1 example_world))
   \<and> digest_ok hex_digest example_repos
   \<and> list_all clean_response [example_page 2 False, example_page 1 False]
   \<and> True = (\<not> (int (length (fst (read_cache 1 example_world))) - 1
                        \<noteq> int (length example_repos) \<or> False))
   \<and> cache_builder hex_digest ''me'' example_repos 1 False 0 0
        [example_failure 500] example_refreshed_world
     = (Returned (9, 3, 6, True), [example_failure 500], example_refreshed_world)"
proof -
  have r: "cache_builder hex_digest ''me'' example_repos 1 False 0 0
        [example_page 2 False, example_page 1 False] example_world
     = (Returned (9, 3, 6, True), [], example_refreshed_world)"
    by code_simp
  have a: "ledger_ok 1 (fst (read_cache 1 example_world))" by code_simp
  have b: "digest_ok hex_digest example_repos" by code_simp
  have c: "list_all clean_response [example_page 2 False, example_page 1 False]" by code_simp
  from cached_flag_and_second_run[OF r a b c, of "[example_failure 500]"] r a b c
  show ?thesis by blast
qed

end
